theory Spec2Isabelle
  imports Main "HOL-Library.Word"
begin

section \<open>Machine integers and build-time constants\<close>

text \<open>
  The firmware works on fixed-width unsigned integers. All timestamps are
  \<open>uint32_t\<close> milliseconds and every elapsed-time test is written
  \<open>now - then <cmp> window\<close>, so subtraction wraps around modulo \<open>2^32\<close>.
  A narrower operand of such a comparison (a \<open>uint8_t\<close> or \<open>uint16_t\<close>
  constant) is zero-extended first, which is \<open>ucast\<close> here.
\<close>

type_synonym u8 = "8 word"
type_synonym u16 = "16 word"
type_synonym u32 = "32 word"

text \<open>
  The constants of \<open>util/constants/timing.hpp\<close>, \<open>communication/constants/config.hpp\<close>
  and \<open>internal/user_config_bridge.hpp\<close>. Each can be overridden by a \<open>CONFIG_*\<close> /
  \<open>LSH_*\<close> macro of the build, so they are parameters of the model; the types are the
  declared ones.
\<close>

record Config =
  ACTUATOR_DEBOUNCE_TIME_MS :: u8
  LCNB_TIMEOUT_MS :: u16
  CONNECTION_TIMEOUT_MS :: u16
  CONFIG_MAX_ACTUATORS :: u8
  CONFIG_MAX_CLICKABLES :: u8
  CONFIG_DEVICE_NAME :: string

text \<open>The values the headers give when no macro overrides them, for a device with
  room for two actuators and two clickables.\<close>

definition default_config :: Config where
  "default_config =
     \<lparr> ACTUATOR_DEBOUNCE_TIME_MS = 100, LCNB_TIMEOUT_MS = 1000,
       CONNECTION_TIMEOUT_MS = 10200, CONFIG_MAX_ACTUATORS = 2,
       CONFIG_MAX_CLICKABLES = 2, CONFIG_DEVICE_NAME = ''c1'' \<rparr>"

section \<open>Actuator (peripherals/output/actuator.cpp)\<close>

text \<open>
  The fields of \<open>class Actuator\<close>. \<open>index\<close> and \<open>id\<close> carry the prefix \<open>a_\<close>
  because the clickable has fields of the same names.
\<close>

record Actuator =
  a_pinNumber :: u8
  a_index :: u8
  defaultState :: bool
  actualState :: bool
  lastTimeSwitched :: u32
  isProtected :: bool
  a_id :: u8
  hasAutoOffTimer :: bool
  autoOffTimer_ms :: u32

text \<open>
  The hardware output is the sequence of \<open>digitalWrite(pin, level)\<close> calls made so far
  (the conventional-IO build; the fast-IO build sets or clears the pin's bit of its port
  at the same place).
\<close>

type_synonym PinLog = "(u8 \<times> bool) list"

definition digitalWrite :: "u8 \<Rightarrow> bool \<Rightarrow> PinLog \<Rightarrow> PinLog" where
  "digitalWrite pin level hw = hw @ [(pin, level)]"

text \<open>
  \<open>Actuator::setState\<close>. \<open>now\<close> is \<open>timeKeeper::getTime()\<close>, the timestamp cached
  for the running loop iteration. A method is a function from the object and the hardware
  to the returned value, the object and the hardware.
\<close>

definition setState :: "Config \<Rightarrow> u32 \<Rightarrow> bool \<Rightarrow> Actuator \<Rightarrow> PinLog \<Rightarrow> bool \<times> Actuator \<times> PinLog" where
  "setState cfg now state a hw =
     (if actualState a = state then (False, a, hw)
      else if ACTUATOR_DEBOUNCE_TIME_MS cfg \<noteq> 0 \<and>
              now - lastTimeSwitched a < ucast (ACTUATOR_DEBOUNCE_TIME_MS cfg)
           then (False, a, hw)
      else (True, a\<lparr>actualState := state, lastTimeSwitched := now\<rparr>,
            digitalWrite (a_pinNumber a) state hw))"

definition setAutoOffTimer :: "u32 \<Rightarrow> Actuator \<Rightarrow> Actuator" where
  "setAutoOffTimer time_ms a = a\<lparr>hasAutoOffTimer := (time_ms \<noteq> 0), autoOffTimer_ms := time_ms\<rparr>"

definition setProtected :: "bool \<Rightarrow> Actuator \<Rightarrow> Actuator" where
  "setProtected hasProtection a = a\<lparr>isProtected := hasProtection\<rparr>"

definition toggleState :: "Config \<Rightarrow> u32 \<Rightarrow> Actuator \<Rightarrow> PinLog \<Rightarrow> bool \<times> Actuator \<times> PinLog" where
  "toggleState cfg now a hw = setState cfg now (\<not> actualState a) a hw"

definition checkAutoOffTimer :: "Config \<Rightarrow> u32 \<Rightarrow> Actuator \<Rightarrow> PinLog \<Rightarrow> bool \<times> Actuator \<times> PinLog" where
  "checkAutoOffTimer cfg now a hw =
     (if actualState a \<and> hasAutoOffTimer a then
        (if now - lastTimeSwitched a \<ge> autoOffTimer_ms a then setState cfg now False a hw
         else (False, a, hw))
      else (False, a, hw))"

text \<open>The constructor: \<open>Actuator(pin, uniqueId, normalState = false)\<close> with the member
  initialisers of the class.\<close>

definition new_Actuator :: "u8 \<Rightarrow> u8 \<Rightarrow> bool \<Rightarrow> Actuator" where
  "new_Actuator pin uniqueId normalState =
     \<lparr> a_pinNumber = pin, a_index = 0, defaultState = normalState, actualState = False,
       lastTimeSwitched = 0, isProtected = False, a_id = uniqueId,
       hasAutoOffTimer = False, autoOffTimer_ms = 0 \<rparr>"

section \<open>Enumerations (util/constants/clicktypes.hpp, clickresults.hpp)\<close>

text \<open>Every enumeration of the headers has an enumerator \<open>NONE\<close>; here each carries
  the initials of its type.\<close>

datatype ClickType = CT_NONE | SHORT | LONG | SUPER_LONG

datatype LongClickType = LCT_NONE | LCT_NORMAL | ON_ONLY | OFF_ONLY

datatype SuperLongClickType = SLCT_NONE | SLCT_NORMAL | SELECTIVE

datatype NoNetworkClickType = NNCT_NONE | LOCAL_FALLBACK | DO_NOTHING

datatype ClickResult =
    NOT_VALID
  | NO_CLICK
  | SHORT_CLICK
  | SHORT_CLICK_QUICK
  | LONG_CLICK
  | DOUBLE_CLICK
  | SUPER_LONG_CLICK
  | NO_CLICK_DEBOUNCE_NOT_ELAPSED
  | NO_CLICK_TOO_EARLY_FOR_A_LONG_CLICK
  | NO_CLICK_TOO_EARLY_FOR_A_SUPER_LONG_CLICK
  | NO_CLICK_TOO_LATE_FOR_A_SHORT_CLICK
  | NO_CLICK_KEEPING_CLICKED
  | NO_CLICK_NOT_SHORT_CLICKABLE
  | NO_CLICK_NOT_LONG_CLICKABLE
  | NO_CLICK_NOT_SUPER_LONG_CLICKABLE
  | NO_CLICK_NOT_LONG_OR_SUPER_LONG_CLICKABLE

section \<open>Clickable (peripherals/input/clickable.hpp, clickable.cpp)\<close>

datatype State = IDLE | DEBOUNCING | PRESSED | RELEASED

datatype ActionFired = AF_NONE | AF_LONG | AF_SUPER_LONG

text \<open>\<open>enum class ActionFired : uint8_t\<close> is compared with \<open><\<close>, that is by the
  enumerators' values 0, 1, 2.\<close>

fun ActionFired_value :: "ActionFired \<Rightarrow> nat" where
  "ActionFired_value AF_NONE = 0"
| "ActionFired_value AF_LONG = 1"
| "ActionFired_value AF_SUPER_LONG = 2"

text \<open>The fields of \<open>class Clickable\<close>; the eight one-bit members of
  \<open>ClickableConfigFlags\<close> are booleans.\<close>

record Clickable =
  c_pinNumber :: u8
  c_index :: u8
  c_id :: u8
  isShortClickable :: bool
  isLongClickable :: bool
  isSuperLongClickable :: bool
  isNetworkLongClickable :: bool
  isNetworkSuperLongClickable :: bool
  isQuickClickable :: bool
  isValid :: bool
  isChecked :: bool
  longClickType :: LongClickType
  longClickFallback :: NoNetworkClickType
  superLongClickType :: SuperLongClickType
  superLongClickFallback :: NoNetworkClickType
  currentState :: State
  stateChangeTime :: u32
  lastActionFired :: ActionFired
  actuatorsShort :: "u8 list"
  actuatorsLong :: "u8 list"
  actuatorsSuperLong :: "u8 list"
  longClick_ms :: u16
  superLongClick_ms :: u16
  debounce_ms :: u8

text \<open>The constructor \<open>Clickable(pin, uniqueId)\<close> with the member initialisers; the
  timings start at the defaults of \<open>timing.hpp\<close>.\<close>

definition new_Clickable :: "u8 \<Rightarrow> u8 \<Rightarrow> Clickable" where
  "new_Clickable pin uniqueId =
     \<lparr> c_pinNumber = pin, c_index = 0, c_id = uniqueId,
       isShortClickable = True, isLongClickable = False, isSuperLongClickable = False,
       isNetworkLongClickable = False, isNetworkSuperLongClickable = False,
       isQuickClickable = False, isValid = False, isChecked = False,
       longClickType = LCT_NONE, longClickFallback = NNCT_NONE,
       superLongClickType = SLCT_NONE, superLongClickFallback = NNCT_NONE,
       currentState = IDLE, stateChangeTime = 0, lastActionFired = AF_NONE,
       actuatorsShort = [], actuatorsLong = [], actuatorsSuperLong = [],
       longClick_ms = 400, superLongClick_ms = 1000, debounce_ms = 20 \<rparr>"

definition setClickableShort :: "bool \<Rightarrow> Clickable \<Rightarrow> Clickable" where
  "setClickableShort shortClickable c = c\<lparr>isShortClickable := shortClickable\<rparr>"

definition setClickableLong ::
  "bool \<Rightarrow> LongClickType \<Rightarrow> bool \<Rightarrow> NoNetworkClickType \<Rightarrow> Clickable \<Rightarrow> Clickable" where
  "setClickableLong longClickable clickType networkClickable fallback c =
     c\<lparr>isLongClickable := longClickable, longClickType := clickType,
       isNetworkLongClickable := networkClickable, longClickFallback := fallback\<rparr>"

definition setClickableSuperLong ::
  "bool \<Rightarrow> SuperLongClickType \<Rightarrow> bool \<Rightarrow> NoNetworkClickType \<Rightarrow> Clickable \<Rightarrow> Clickable" where
  "setClickableSuperLong superLongClickable clickType networkClickable fallback c =
     c\<lparr>isSuperLongClickable := superLongClickable, superLongClickType := clickType,
       isNetworkSuperLongClickable := networkClickable, superLongClickFallback := fallback\<rparr>"

fun addActuator_to :: "u8 \<Rightarrow> ClickType \<Rightarrow> Clickable \<Rightarrow> Clickable" where
  "addActuator_to actuatorIndex SHORT c = c\<lparr>actuatorsShort := actuatorsShort c @ [actuatorIndex]\<rparr>"
| "addActuator_to actuatorIndex LONG c = c\<lparr>actuatorsLong := actuatorsLong c @ [actuatorIndex]\<rparr>"
| "addActuator_to actuatorIndex SUPER_LONG c =
     c\<lparr>actuatorsSuperLong := actuatorsSuperLong c @ [actuatorIndex]\<rparr>"
| "addActuator_to actuatorIndex CT_NONE c = c"

fun getTotalActuators :: "ClickType \<Rightarrow> Clickable \<Rightarrow> u8" where
  "getTotalActuators SHORT c = of_nat (length (actuatorsShort c))"
| "getTotalActuators LONG c = of_nat (length (actuatorsLong c))"
| "getTotalActuators SUPER_LONG c = of_nat (length (actuatorsSuperLong c))"
| "getTotalActuators CT_NONE c = 0"

fun isNetworkClickable :: "ClickType \<Rightarrow> Clickable \<Rightarrow> bool" where
  "isNetworkClickable LONG c = isNetworkLongClickable c"
| "isNetworkClickable SUPER_LONG c = isNetworkSuperLongClickable c"
| "isNetworkClickable _ c = False"

fun getNetworkFallback :: "ClickType \<Rightarrow> Clickable \<Rightarrow> NoNetworkClickType" where
  "getNetworkFallback LONG c = longClickFallback c"
| "getNetworkFallback SUPER_LONG c = superLongClickFallback c"
| "getNetworkFallback _ c = NNCT_NONE"

text \<open>\<open>Clickable::check\<close>: the validity flags, and the derived quick-click flag.\<close>

definition check :: "Clickable \<Rightarrow> bool \<times> Clickable" where
  "check c =
     (let c1 = c\<lparr>isChecked := True,
                  isQuickClickable := (isShortClickable c \<and> \<not> isLongClickable c
                                        \<and> \<not> isSuperLongClickable c)\<rparr>
      in if (isShortClickable c1 \<or> isLongClickable c1 \<or> isSuperLongClickable c1)
            \<and> (actuatorsShort c1 \<noteq> [] \<or> actuatorsLong c1 \<noteq> [] \<or> actuatorsSuperLong c1 \<noteq> [])
         then (True, c1\<lparr>isValid := True\<rparr>)
         else (False, c1\<lparr>isValid := False\<rparr>))"

subsection \<open>The click-detection state machine\<close>

text \<open>The body of \<open>case State::RELEASED\<close>, which \<open>case State::PRESSED\<close> falls
  through to when the button is found released.\<close>

definition released :: "Clickable \<Rightarrow> ClickResult \<times> Clickable" where
  "released c =
     (let c1 = c\<lparr>currentState := IDLE\<rparr>
      in if isQuickClickable c1 then (NO_CLICK, c1)
         else if lastActionFired c1 = AF_NONE
              then (if isShortClickable c1 then SHORT_CLICK else NO_CLICK_NOT_SHORT_CLICKABLE, c1)
         else (NO_CLICK, c1))"

text \<open>
  \<open>Clickable::clickDetection\<close>. \<open>isPressed\<close> is the pin level read at the start of the
  call and \<open>now\<close> the cached timestamp. The switch falls to the final
  \<open>return ClickResult::NO_CLICK\<close> wherever a case ends in \<open>break\<close>.
\<close>

definition clickDetection :: "bool \<Rightarrow> u32 \<Rightarrow> Clickable \<Rightarrow> ClickResult \<times> Clickable" where
  "clickDetection isPressed now c =
     (case currentState c of
        IDLE \<Rightarrow>
          if isPressed then (NO_CLICK, c\<lparr>currentState := DEBOUNCING, stateChangeTime := now\<rparr>)
          else (NO_CLICK, c)
      | DEBOUNCING \<Rightarrow>
          if now - stateChangeTime c \<ge> ucast (debounce_ms c) then
            (if isPressed then
               (if isQuickClickable c then SHORT_CLICK_QUICK else NO_CLICK,
                c\<lparr>currentState := PRESSED, stateChangeTime := now, lastActionFired := AF_NONE\<rparr>)
             else (NO_CLICK, c\<lparr>currentState := IDLE\<rparr>))
          else (NO_CLICK, c)
      | PRESSED \<Rightarrow>
          if isPressed then
            (let pressDuration = now - stateChangeTime c
             in if isSuperLongClickable c
                   \<and> ActionFired_value (lastActionFired c) < ActionFired_value AF_SUPER_LONG
                   \<and> pressDuration \<ge> ucast (superLongClick_ms c)
                then (SUPER_LONG_CLICK, c\<lparr>lastActionFired := AF_SUPER_LONG\<rparr>)
                else if isLongClickable c
                   \<and> ActionFired_value (lastActionFired c) < ActionFired_value AF_LONG
                   \<and> pressDuration \<ge> ucast (longClick_ms c)
                then (LONG_CLICK, c\<lparr>lastActionFired := AF_LONG\<rparr>)
                else (NO_CLICK_KEEPING_CLICKED, c))
          else released (c\<lparr>currentState := RELEASED\<rparr>)
      | RELEASED \<Rightarrow> released c)"

text \<open>
  A sequence of polls: the super-loop calls \<open>clickDetection\<close> once per iteration, each
  time with the pin level and the timestamp of that iteration. The results are collected
  in order.
\<close>

fun clickDetection_polls :: "(bool \<times> u32) list \<Rightarrow> Clickable \<Rightarrow> ClickResult list \<times> Clickable" where
  "clickDetection_polls [] c = ([], c)"
| "clickDetection_polls (p # ps) c =
     (case clickDetection (fst p) (snd p) c of
        (r, c1) \<Rightarrow> (case clickDetection_polls ps c1 of (rs, c2) \<Rightarrow> (r # rs, c2)))"

section \<open>The device state\<close>

text \<open>
  What can go wrong below the level of the program's own checks: a null slot of a
  registry array is dereferenced, an array is indexed beyond its capacity, a key is
  added to a full \<open>etl::map\<close>, a map iterator equal to \<open>end()\<close> is dereferenced. The
  source has no defined behaviour there, so the model stops with the error.
  \<open>DeviceReset\<close> is the \<open>[[noreturn]] deviceReset()\<close> of the fatal configuration errors.
\<close>

datatype error = NullPointer | OutOfBounds | MapFull | KeyNotFound | DeviceReset

text \<open>
  A record sent to the bridge is the \<open>JsonDocument\<close> handed to \<open>EspCom::sendJson\<close>:
  its keys in the order they were set, each with its value. The records this firmware
  sends hold unsigned bytes, the device name and arrays of unsigned bytes.
\<close>

datatype JsonValue = JUInt u8 | JString string | JArray "u8 list"

type_synonym JsonDocument = "(string \<times> JsonValue) list"

definition KEY_PAYLOAD :: string where "KEY_PAYLOAD = ''p''"
definition KEY_NAME :: string where "KEY_NAME = ''n''"
definition KEY_ACTUATORS_ARRAY :: string where "KEY_ACTUATORS_ARRAY = ''a''"
definition KEY_BUTTONS_ARRAY :: string where "KEY_BUTTONS_ARRAY = ''b''"
definition KEY_ID :: string where "KEY_ID = ''i''"
definition KEY_STATE :: string where "KEY_STATE = ''s''"
definition KEY_TYPE :: string where "KEY_TYPE = ''t''"
definition KEY_CONFIRM :: string where "KEY_CONFIRM = ''c''"

text \<open>\<open>enum class Command : uint8_t\<close> and \<open>enum class ProtocolClickType : uint8_t\<close> of
  \<open>protocol.hpp\<close>, by their values.\<close>

definition DEVICE_DETAILS :: u8 where "DEVICE_DETAILS = 1"
definition ACTUATORS_STATE :: u8 where "ACTUATORS_STATE = 2"
definition NETWORK_CLICK :: u8 where "NETWORK_CLICK = 3"
definition BOOT :: u8 where "BOOT = 4"
definition PING :: u8 where "PING = 5"
definition REQUEST_DETAILS :: u8 where "REQUEST_DETAILS = 10"
definition REQUEST_STATE :: u8 where "REQUEST_STATE = 11"
definition SET_STATE :: u8 where "SET_STATE = 12"
definition SET_SINGLE_ACTUATOR :: u8 where "SET_SINGLE_ACTUATOR = 13"
definition NETWORK_CLICK_ACK :: u8 where "NETWORK_CLICK_ACK = 14"
definition FAILOVER :: u8 where "FAILOVER = 15"
definition FAILOVER_CLICK :: u8 where "FAILOVER_CLICK = 16"

definition ProtocolClickType_LONG :: u8 where "ProtocolClickType_LONG = 1"
definition ProtocolClickType_SUPER_LONG :: u8 where "ProtocolClickType_SUPER_LONG = 2"

text \<open>
  The globals of the firmware: the cached clock of \<open>timeKeeper\<close>, the registries of
  \<open>Actuators\<close> and \<open>Clickables\<close>, the two maps of \<open>NetworkClicks\<close>, the link state of
  \<open>EspCom\<close>, and the two outputs: the records written to the serial link and the pin
  writes. A registry array is an \<open>etl::array\<close> of pointers with one slot per unit of
  capacity; a slot that was never assigned is null, \<open>None\<close> here. An \<open>etl::map\<close> is a
  list of key-value pairs in ascending key order, the order in which it is iterated.
  Registered objects are distinct (a repeated id is fatal in \<open>finalizeSetup\<close>), so each
  slot holds its object.
\<close>

record System =
  timeKeeper_now :: u32
  totalActuators :: u8
  actuators :: "Actuator option list"
  actuatorsMap :: "(u8 \<times> u8) list"
  actuatorsWithAutoOffIndexes :: "u8 list"
  totalClickables :: u8
  clickables :: "Clickable option list"
  clickablesMap :: "(u8 \<times> u8) list"
  longClickedNetworkClickables :: "(u8 \<times> u32) list"
  superLongClickedNetworkClickables :: "(u8 \<times> u32) list"
  lastSentPayloadTime_ms :: u32
  lastReceivedPayloadTime_ms :: u32
  firstValidPayloadReceived :: bool
  serial :: "JsonDocument list"
  pins :: PinLog

text \<open>The state before \<open>setup()\<close>: the zero-initialised globals.\<close>

definition init_System :: "Config \<Rightarrow> System" where
  "init_System cfg =
     \<lparr> timeKeeper_now = 0, totalActuators = 0,
       actuators = replicate (unat (CONFIG_MAX_ACTUATORS cfg)) None,
       actuatorsMap = [], actuatorsWithAutoOffIndexes = [],
       totalClickables = 0,
       clickables = replicate (unat (CONFIG_MAX_CLICKABLES cfg)) None,
       clickablesMap = [],
       longClickedNetworkClickables = [], superLongClickedNetworkClickables = [],
       lastSentPayloadTime_ms = 0, lastReceivedPayloadTime_ms = 0,
       firstValidPayloadReceived = False, serial = [], pins = [] \<rparr>"

subsection \<open>etl::map\<close>

fun map_assign :: "'k::linorder \<Rightarrow> 'v \<Rightarrow> ('k \<times> 'v) list \<Rightarrow> ('k \<times> 'v) list" where
  "map_assign k v [] = [(k, v)]"
| "map_assign k v (e # m) =
     (if k < fst e then (k, v) # e # m
      else if k = fst e then (k, v) # m
      else e # map_assign k v m)"

text \<open>\<open>map[k] = v\<close> on a map of the given capacity.\<close>

definition map_subscript_assign ::
  "nat \<Rightarrow> 'k::linorder \<Rightarrow> 'v \<Rightarrow> ('k \<times> 'v) list \<Rightarrow> error + ('k \<times> 'v) list" where
  "map_subscript_assign capacity k v m =
     (if map_of m k = None \<and> length m \<ge> capacity then Inl MapFull
      else Inr (map_assign k v m))"

definition map_erase :: "'k \<Rightarrow> ('k \<times> 'v) list \<Rightarrow> ('k \<times> 'v) list" where
  "map_erase k m = filter (\<lambda>e. fst e \<noteq> k) m"

subsection \<open>Calls through the actuator registry\<close>

text \<open>\<open>Actuators::actuators[i]\<close>, dereferenced.\<close>

definition actuator_at :: "System \<Rightarrow> u8 \<Rightarrow> error + Actuator" where
  "actuator_at s i =
     (if unat i < length (actuators s)
      then (case actuators s ! unat i of None \<Rightarrow> Inl NullPointer | Some a \<Rightarrow> Inr a)
      else Inl OutOfBounds)"

text \<open>\<open>Actuators::actuators[i]->method()\<close> for a method that returns a flag and may
  change the actuator and the hardware.\<close>

definition call_actuator ::
  "u8 \<Rightarrow> (Actuator \<Rightarrow> PinLog \<Rightarrow> bool \<times> Actuator \<times> PinLog) \<Rightarrow> System \<Rightarrow> error + bool \<times> System" where
  "call_actuator i method s =
     (case actuator_at s i of
        Inl e \<Rightarrow> Inl e
      | Inr a \<Rightarrow>
          (case method a (pins s) of
             (r, a1, hw1) \<Rightarrow> Inr (r, s\<lparr>actuators := (actuators s)[unat i := Some a1], pins := hw1\<rparr>)))"

text \<open>The loop \<open>for (x : xs) { any |= f(x); }\<close> with its accumulator.\<close>

fun or_each ::
  "('x \<Rightarrow> System \<Rightarrow> error + bool \<times> System) \<Rightarrow> 'x list \<Rightarrow> bool \<Rightarrow> System \<Rightarrow> error + bool \<times> System" where
  "or_each f [] any s = Inr (any, s)"
| "or_each f (x # xs) any s =
     (case f x s of
        Inl e \<Rightarrow> Inl e
      | Inr (r, s1) \<Rightarrow> or_each f xs (any \<or> r) s1)"

text \<open>The indices \<open>0, 1, ..., n - 1\<close> of a loop \<open>for (uint8_t i = 0; i < n; ++i)\<close>.\<close>

definition indices :: "u8 \<Rightarrow> u8 list" where
  "indices n = map of_nat [0..<unat n]"

subsection \<open>Actuators (device/actuator_manager.cpp)\<close>

definition addActuator :: "Config \<Rightarrow> Actuator \<Rightarrow> System \<Rightarrow> error + System" where
  "addActuator cfg actuator s =
     (let currentIndex = totalActuators s
      in if currentIndex \<ge> CONFIG_MAX_ACTUATORS cfg then Inl DeviceReset
         else if unat currentIndex \<ge> length (actuators s) then Inl OutOfBounds
         else
           (case map_subscript_assign (unat (CONFIG_MAX_ACTUATORS cfg)) (a_id actuator)
                   currentIndex (actuatorsMap s) of
              Inl e \<Rightarrow> Inl e
            | Inr m \<Rightarrow>
                Inr (s\<lparr>actuators := (actuators s)[unat currentIndex :=
                                        Some (actuator\<lparr>a_index := currentIndex\<rparr>)],
                       actuatorsMap := m,
                       totalActuators := totalActuators s + 1\<rparr>)))"

definition actuatorExists :: "u8 \<Rightarrow> System \<Rightarrow> bool" where
  "actuatorExists actuatorId s = (map_of (actuatorsMap s) actuatorId \<noteq> None)"

definition Actuators_getIndex :: "u8 \<Rightarrow> System \<Rightarrow> error + u8" where
  "Actuators_getIndex actuatorId s =
     (case map_of (actuatorsMap s) actuatorId of None \<Rightarrow> Inl KeyNotFound | Some i \<Rightarrow> Inr i)"

definition actuatorsAutoOffTimersCheck :: "Config \<Rightarrow> System \<Rightarrow> error + bool \<times> System" where
  "actuatorsAutoOffTimersCheck cfg s =
     or_each (\<lambda>actuatorIndex s1. call_actuator actuatorIndex (checkAutoOffTimer cfg (timeKeeper_now s1)) s1)
       (actuatorsWithAutoOffIndexes s) False s"

definition turnOffUnprotectedActuators :: "Config \<Rightarrow> System \<Rightarrow> error + bool \<times> System" where
  "turnOffUnprotectedActuators cfg s =
     or_each (\<lambda>i s1.
         case actuator_at s1 i of
           Inl e \<Rightarrow> Inl e
         | Inr actuator \<Rightarrow>
             if \<not> isProtected actuator then call_actuator i (setState cfg (timeKeeper_now s1) False) s1
             else Inr (False, s1))
       (indices (totalActuators s)) False s"

text \<open>The first loop of \<open>Actuators::finalizeSetup\<close>: it runs over every slot of the
  array, with the counter \<open>i\<close> beside it.\<close>

fun autoOffIndexes :: "Actuator option list \<Rightarrow> u8 \<Rightarrow> u8 list \<Rightarrow> error + u8 list" where
  "autoOffIndexes [] i acc = Inr acc"
| "autoOffIndexes (slot # slots) i acc =
     (case slot of
        None \<Rightarrow> Inl NullPointer
      | Some actuator \<Rightarrow>
          autoOffIndexes slots (i + 1) (if hasAutoOffTimer actuator then acc @ [i] else acc))"

definition Actuators_finalizeSetup :: "System \<Rightarrow> error + System" where
  "Actuators_finalizeSetup s =
     (if actuatorsWithAutoOffIndexes s \<noteq> [] then Inr s
      else
        (case autoOffIndexes (actuators s) 0 (actuatorsWithAutoOffIndexes s) of
           Inl e \<Rightarrow> Inl e
         | Inr idxs \<Rightarrow>
             if length (actuatorsMap s) \<noteq> unat (totalActuators s) then Inl DeviceReset
             else Inr (s\<lparr>actuatorsWithAutoOffIndexes := idxs\<rparr>)))"

subsection \<open>The local click actions (clickable.cpp, clickable_manager.cpp)\<close>

definition shortClick :: "Config \<Rightarrow> Clickable \<Rightarrow> System \<Rightarrow> error + bool \<times> System" where
  "shortClick cfg c s =
     (if \<not> isShortClickable c then Inr (False, s)
      else or_each (\<lambda>actuatorIndex s1. call_actuator actuatorIndex (toggleState cfg (timeKeeper_now s1)) s1)
             (actuatorsShort c) False s)"

text \<open>The counting loop of \<open>longClick\<close>; the counter is a \<open>uint8_t\<close>.\<close>

fun count_actuatorsLongOn :: "u8 list \<Rightarrow> u8 \<Rightarrow> System \<Rightarrow> error + u8" where
  "count_actuatorsLongOn [] actuatorsLongOn s = Inr actuatorsLongOn"
| "count_actuatorsLongOn (actuatorIndex # rest) actuatorsLongOn s =
     (case actuator_at s actuatorIndex of
        Inl e \<Rightarrow> Inl e
      | Inr a \<Rightarrow>
          count_actuatorsLongOn rest (actuatorsLongOn + (if actualState a then 1 else 0)) s)"

text \<open>
  \<open>Clickable::longClick\<close>. In \<open>(actuatorsLongOn << 1U) < getTotalActuators(LONG)\<close> both
  operands are promoted to \<open>int\<close>, where the doubled count (at most 510) does not
  overflow; the comparison is on the values.
\<close>

definition longClick :: "Config \<Rightarrow> Clickable \<Rightarrow> System \<Rightarrow> error + bool \<times> System" where
  "longClick cfg c s =
     (if \<not> isLongClickable c then Inr (False, s)
      else
        (case (case longClickType c of
                 LCT_NORMAL \<Rightarrow>
                   (case count_actuatorsLongOn (actuatorsLong c) 0 s of
                      Inl e \<Rightarrow> Inl e
                    | Inr actuatorsLongOn \<Rightarrow>
                        Inr (Some (2 * uint actuatorsLongOn < uint (getTotalActuators LONG c))))
               | ON_ONLY \<Rightarrow> Inr (Some True)
               | OFF_ONLY \<Rightarrow> Inr (Some False)
               | LCT_NONE \<Rightarrow> Inr None) of
           Inl e \<Rightarrow> Inl e
         | Inr None \<Rightarrow> Inr (False, s)
         | Inr (Some stateToSet) \<Rightarrow>
             or_each (\<lambda>actuatorIndex s1.
                 call_actuator actuatorIndex (setState cfg (timeKeeper_now s1) stateToSet) s1)
               (actuatorsLong c) False s))"

definition superLongClickSelective :: "Config \<Rightarrow> Clickable \<Rightarrow> System \<Rightarrow> error + bool \<times> System" where
  "superLongClickSelective cfg c s =
     (if \<not> isSuperLongClickable c \<or> superLongClickType c \<noteq> SELECTIVE then Inr (False, s)
      else or_each (\<lambda>actuatorIndex s1.
               case actuator_at s1 actuatorIndex of
                 Inl e \<Rightarrow> Inl e
               | Inr a \<Rightarrow>
                   if \<not> isProtected a
                   then call_actuator actuatorIndex (setState cfg (timeKeeper_now s1) False) s1
                   else Inr (False, s1))
             (actuatorsSuperLong c) False s)"

text \<open>\<open>Clickables::click(clickable, clickType)\<close>.\<close>

definition click :: "Config \<Rightarrow> Clickable \<Rightarrow> ClickType \<Rightarrow> System \<Rightarrow> error + bool \<times> System" where
  "click cfg c clickType s =
     (case clickType of
        SHORT \<Rightarrow> shortClick cfg c s
      | LONG \<Rightarrow> longClick cfg c s
      | SUPER_LONG \<Rightarrow>
          (case superLongClickType c of
             SLCT_NORMAL \<Rightarrow> turnOffUnprotectedActuators cfg s
           | SELECTIVE \<Rightarrow> superLongClickSelective cfg c s
           | SLCT_NONE \<Rightarrow> Inr (False, s))
      | CT_NONE \<Rightarrow> Inr (False, s))"

subsection \<open>Clickables (device/clickable_manager.cpp)\<close>

definition clickable_at :: "System \<Rightarrow> u8 \<Rightarrow> error + Clickable" where
  "clickable_at s i =
     (if unat i < length (clickables s)
      then (case clickables s ! unat i of None \<Rightarrow> Inl NullPointer | Some c \<Rightarrow> Inr c)
      else Inl OutOfBounds)"

definition addClickable :: "Config \<Rightarrow> Clickable \<Rightarrow> System \<Rightarrow> error + System" where
  "addClickable cfg clickable s =
     (let currentIndex = totalClickables s
      in if currentIndex \<ge> CONFIG_MAX_CLICKABLES cfg then Inl DeviceReset
         else if unat currentIndex \<ge> length (clickables s) then Inl OutOfBounds
         else
           (case map_subscript_assign (unat (CONFIG_MAX_CLICKABLES cfg)) (c_id clickable)
                   currentIndex (clickablesMap s) of
              Inl e \<Rightarrow> Inl e
            | Inr m \<Rightarrow>
                Inr (s\<lparr>clickables := (clickables s)[unat currentIndex :=
                                        Some (clickable\<lparr>c_index := currentIndex\<rparr>)],
                       clickablesMap := m,
                       totalClickables := totalClickables s + 1\<rparr>)))"

definition clickableExists :: "u8 \<Rightarrow> System \<Rightarrow> bool" where
  "clickableExists clickableId s = (map_of (clickablesMap s) clickableId \<noteq> None)"

definition Clickables_getIndex :: "u8 \<Rightarrow> System \<Rightarrow> error + u8" where
  "Clickables_getIndex clickableId s =
     (case map_of (clickablesMap s) clickableId of None \<Rightarrow> Inl KeyNotFound | Some i \<Rightarrow> Inr i)"

subsection \<open>EspCom (communication/esp_com.cpp)\<close>

definition updateLastSentTime :: "System \<Rightarrow> System" where
  "updateLastSentTime s = s\<lparr>lastSentPayloadTime_ms := timeKeeper_now s\<rparr>"

text \<open>\<open>EspCom::sendJson\<close>: the encoded record goes out on the serial link (as a JSON line
  or as MessagePack, by the build) and the send time is recorded.\<close>

definition sendJson :: "JsonDocument \<Rightarrow> System \<Rightarrow> System" where
  "sendJson json s = updateLastSentTime (s\<lparr>serial := serial s @ [json]\<rparr>)"

definition isConnected :: "Config \<Rightarrow> System \<Rightarrow> bool" where
  "isConnected cfg s =
     (firstValidPayloadReceived s
      \<and> timeKeeper_now s - lastReceivedPayloadTime_ms s < ucast (CONNECTION_TIMEOUT_MS cfg))"

subsection \<open>Serializer (communication/serializer.cpp)\<close>

text \<open>A range-based \<open>for\<close> over a whole registry array, reading one member of the object
  behind every slot.\<close>

fun each_slot :: "('a \<Rightarrow> 'b) \<Rightarrow> 'a option list \<Rightarrow> error + 'b list" where
  "each_slot f [] = Inr []"
| "each_slot f (slot # slots) =
     (case slot of
        None \<Rightarrow> Inl NullPointer
      | Some x \<Rightarrow> (case each_slot f slots of Inl e \<Rightarrow> Inl e | Inr ys \<Rightarrow> Inr (f x # ys)))"

definition serializeDetails :: "Config \<Rightarrow> System \<Rightarrow> error + System" where
  "serializeDetails cfg s =
     (case each_slot a_id (actuators s) of
        Inl e \<Rightarrow> Inl e
      | Inr jsonActuators \<Rightarrow>
          (case each_slot c_id (clickables s) of
             Inl e \<Rightarrow> Inl e
           | Inr jsonClickables \<Rightarrow>
               Inr (sendJson
                     [(KEY_PAYLOAD, JUInt DEVICE_DETAILS),
                      (KEY_NAME, JString (CONFIG_DEVICE_NAME cfg)),
                      (KEY_ACTUATORS_ARRAY, JArray jsonActuators),
                      (KEY_BUTTONS_ARRAY, JArray jsonClickables)] s)))"

definition serializeActuatorsState :: "System \<Rightarrow> error + System" where
  "serializeActuatorsState s =
     (case each_slot (\<lambda>actuator. if actualState actuator then 1 else 0) (actuators s) of
        Inl e \<Rightarrow> Inl e
      | Inr jsonActuators \<Rightarrow>
          Inr (sendJson [(KEY_PAYLOAD, JUInt ACTUATORS_STATE), (KEY_STATE, JArray jsonActuators)] s))"

definition serializeNetworkClick :: "u8 \<Rightarrow> ClickType \<Rightarrow> bool \<Rightarrow> System \<Rightarrow> error + System" where
  "serializeNetworkClick clickableIndex clickType confirm s =
     (case (case clickType of
              LONG \<Rightarrow> Some ProtocolClickType_LONG
            | SUPER_LONG \<Rightarrow> Some ProtocolClickType_SUPER_LONG
            | _ \<Rightarrow> None) of
        None \<Rightarrow> Inr s
      | Some t \<Rightarrow>
          (case clickable_at s clickableIndex of
             Inl e \<Rightarrow> Inl e
           | Inr c \<Rightarrow>
               Inr (sendJson
                     [(KEY_PAYLOAD, JUInt NETWORK_CLICK),
                      (KEY_TYPE, JUInt t),
                      (KEY_ID, JUInt (c_id c)),
                      (KEY_CONFIRM, JUInt (if confirm then 1 else 0))] s)))"

subsection \<open>NetworkClicks (core/network_clicks.cpp)\<close>

definition storeNetworkClickTime :: "Config \<Rightarrow> u8 \<Rightarrow> ClickType \<Rightarrow> System \<Rightarrow> error + System" where
  "storeNetworkClickTime cfg clickableIndex clickType s =
     (case clickType of
        LONG \<Rightarrow>
          (case map_subscript_assign (unat (CONFIG_MAX_CLICKABLES cfg)) clickableIndex
                  (timeKeeper_now s) (longClickedNetworkClickables s) of
             Inl e \<Rightarrow> Inl e
           | Inr m \<Rightarrow> Inr (s\<lparr>longClickedNetworkClickables := m\<rparr>))
      | SUPER_LONG \<Rightarrow>
          (case map_subscript_assign (unat (CONFIG_MAX_CLICKABLES cfg)) clickableIndex
                  (timeKeeper_now s) (superLongClickedNetworkClickables s) of
             Inl e \<Rightarrow> Inl e
           | Inr m \<Rightarrow> Inr (s\<lparr>superLongClickedNetworkClickables := m\<rparr>))
      | _ \<Rightarrow> Inr s)"

definition request :: "Config \<Rightarrow> u8 \<Rightarrow> ClickType \<Rightarrow> System \<Rightarrow> error + System" where
  "request cfg clickableIndex clickType s =
     (case serializeNetworkClick clickableIndex clickType False s of
        Inl e \<Rightarrow> Inl e
      | Inr s1 \<Rightarrow> storeNetworkClickTime cfg clickableIndex clickType s1)"

definition thereAreActiveNetworkCLicks :: "System \<Rightarrow> bool" where
  "thereAreActiveNetworkCLicks s =
     (longClickedNetworkClickables s \<noteq> [] \<or> superLongClickedNetworkClickables s \<noteq> [])"

definition eraseNetworkClick :: "u8 \<Rightarrow> ClickType \<Rightarrow> System \<Rightarrow> System" where
  "eraseNetworkClick clickableIndex clickType s =
     (case clickType of
        LONG \<Rightarrow>
          s\<lparr>longClickedNetworkClickables :=
              map_erase clickableIndex (longClickedNetworkClickables s)\<rparr>
      | SUPER_LONG \<Rightarrow>
          s\<lparr>superLongClickedNetworkClickables :=
              map_erase clickableIndex (superLongClickedNetworkClickables s)\<rparr>
      | _ \<Rightarrow> s)"

definition confirm :: "u8 \<Rightarrow> ClickType \<Rightarrow> System \<Rightarrow> error + bool \<times> System" where
  "confirm clickableIndex clickType s =
     (case serializeNetworkClick clickableIndex clickType True s of
        Inl e \<Rightarrow> Inl e
      | Inr s1 \<Rightarrow>
          (let s2 = eraseNetworkClick clickableIndex clickType s1
           in Inr (thereAreActiveNetworkCLicks s2, s2)))"

definition isNetworkClickExpired :: "Config \<Rightarrow> u8 \<Rightarrow> ClickType \<Rightarrow> System \<Rightarrow> bool \<times> System" where
  "isNetworkClickExpired cfg clickableIndex clickType s =
     (case clickType of
        LONG \<Rightarrow>
          (case map_of (longClickedNetworkClickables s) clickableIndex of
             None \<Rightarrow> (True, s)
           | Some t \<Rightarrow>
               if timeKeeper_now s - t > ucast (LCNB_TIMEOUT_MS cfg)
               then (True, s\<lparr>longClickedNetworkClickables :=
                                map_erase clickableIndex (longClickedNetworkClickables s)\<rparr>)
               else (False, s))
      | SUPER_LONG \<Rightarrow>
          (case map_of (superLongClickedNetworkClickables s) clickableIndex of
             None \<Rightarrow> (True, s)
           | Some t \<Rightarrow>
               if timeKeeper_now s - t > ucast (LCNB_TIMEOUT_MS cfg)
               then (True, s\<lparr>superLongClickedNetworkClickables :=
                                map_erase clickableIndex (superLongClickedNetworkClickables s)\<rparr>)
               else (False, s))
      | _ \<Rightarrow> (True, s))"

text \<open>The fallback of one expired (or failed-over) entry: the part of
  \<open>checkNetworkClickTimer\<close> and of the loop body of \<open>checkAllNetworkClicksTimers\<close> that
  runs before the entry is erased.\<close>

definition fallback_click :: "Config \<Rightarrow> u8 \<Rightarrow> ClickType \<Rightarrow> System \<Rightarrow> error + bool \<times> System" where
  "fallback_click cfg clickableIndex clickType s =
     (case clickable_at s clickableIndex of
        Inl e \<Rightarrow> Inl e
      | Inr clickable \<Rightarrow>
          if getNetworkFallback clickType clickable = LOCAL_FALLBACK
          then click cfg clickable clickType s
          else Inr (False, s))"

definition checkNetworkClickTimer ::
  "Config \<Rightarrow> u8 \<Rightarrow> ClickType \<Rightarrow> bool \<Rightarrow> System \<Rightarrow> error + bool \<times> System" where
  "checkNetworkClickTimer cfg clickableIndex clickType failover s =
     (case (case clickType of
              LONG \<Rightarrow> Some (longClickedNetworkClickables s)
            | SUPER_LONG \<Rightarrow> Some (superLongClickedNetworkClickables s)
            | _ \<Rightarrow> None) of
        None \<Rightarrow> Inr (False, s)
      | Some m \<Rightarrow>
          (case map_of m clickableIndex of
             None \<Rightarrow> Inr (False, s)
           | Some t \<Rightarrow>
               if failover \<or> timeKeeper_now s - t > ucast (LCNB_TIMEOUT_MS cfg) then
                 (case fallback_click cfg clickableIndex clickType s of
                    Inl e \<Rightarrow> Inl e
                  | Inr (r, s1) \<Rightarrow> Inr (r, eraseNetworkClick clickableIndex clickType s1))
               else Inr (False, s)))"

text \<open>The map version of \<open>checkAllNetworkClicksTimers\<close>: the entries are visited in key
  order, and an entry is erased right after its fallback ran. The actions never touch
  the maps, so the entries visited are those the map held at the start.\<close>

definition checkAllNetworkClicksTimers_map ::
  "Config \<Rightarrow> ClickType \<Rightarrow> bool \<Rightarrow> (u8 \<times> u32) list \<Rightarrow> System \<Rightarrow> error + bool \<times> System" where
  "checkAllNetworkClicksTimers_map cfg clickType failover m s =
     or_each (\<lambda>e s1.
         if failover \<or> timeKeeper_now s1 - snd e > ucast (LCNB_TIMEOUT_MS cfg) then
           (case fallback_click cfg (fst e) clickType s1 of
              Inl err \<Rightarrow> Inl err
            | Inr (r, s2) \<Rightarrow> Inr (r, eraseNetworkClick (fst e) clickType s2))
         else Inr (False, s1))
       m False s"

definition checkAllNetworkClicksTimers :: "Config \<Rightarrow> bool \<Rightarrow> System \<Rightarrow> error + bool \<times> System" where
  "checkAllNetworkClicksTimers cfg failover s =
     (case (if longClickedNetworkClickables s \<noteq> []
            then checkAllNetworkClicksTimers_map cfg LONG failover (longClickedNetworkClickables s) s
            else Inr (False, s)) of
        Inl e \<Rightarrow> Inl e
      | Inr (r1, s1) \<Rightarrow>
          (case (if superLongClickedNetworkClickables s1 \<noteq> []
                 then checkAllNetworkClicksTimers_map cfg SUPER_LONG failover
                        (superLongClickedNetworkClickables s1) s1
                 else Inr (False, s1)) of
             Inl e \<Rightarrow> Inl e
           | Inr (r2, s2) \<Rightarrow> Inr (r1 \<or> r2, s2)))"

subsection \<open>Deserializer (communication/deserializer.cpp)\<close>

text \<open>
  The received \<open>JsonDocument\<close>, as the dispatcher reads it. The decoder keeps the keys
  \<open>p\<close>, \<open>i\<close>, \<open>t\<close> and \<open>s\<close>. The first three are only read with \<open>as<uint8_t>()\<close>, which
  is 0 for a missing key, so the document holds those bytes. The value under \<open>s\<close> is
  kept by its kind: missing or null; a number for which \<open>is<uint8_t>()\<close> holds; an array,
  given by the \<open>as<uint8_t>()\<close> of its elements; or any other value.
\<close>

datatype StateValue = S_Null | S_UInt8 u8 | S_Array "u8 list" | S_Other

record ReceivedDocument =
  doc_p :: u8
  doc_i :: u8
  doc_t :: u8
  doc_s :: StateValue

record DispatchResult =
  stateChanged :: bool
  networkClickHandled :: bool

text \<open>\<open>JsonArrayConst statesArray = doc[KEY_STATE]\<close>: a value that is no array gives the
  null array, whose size is 0.\<close>

fun statesArray :: "StateValue \<Rightarrow> u8 list" where
  "statesArray (S_Array xs) = xs"
| "statesArray _ = []"

definition processNetworkClickResponse ::
  "Config \<Rightarrow> ReceivedDocument \<Rightarrow> u8 \<Rightarrow> DispatchResult \<Rightarrow> System \<Rightarrow> error + DispatchResult \<times> System" where
  "processNetworkClickResponse cfg doc cmd result s =
     (let jsonClickType = doc_t doc; clickableId = doc_i doc
      in if \<not> clickableExists clickableId s then Inr (result, s)
         else
           (case (if jsonClickType = ProtocolClickType_LONG then Some LONG
                  else if jsonClickType = ProtocolClickType_SUPER_LONG then Some SUPER_LONG
                  else None) of
              None \<Rightarrow> Inr (result, s)
            | Some clickType \<Rightarrow>
                (case Clickables_getIndex clickableId s of
                   Inl e \<Rightarrow> Inl e
                 | Inr clickableIndex \<Rightarrow>
                     if cmd = FAILOVER_CLICK then
                       (case checkNetworkClickTimer cfg clickableIndex clickType True s of
                          Inl e \<Rightarrow> Inl e
                        | Inr (r, s1) \<Rightarrow> Inr (result\<lparr>stateChanged := r\<rparr>, s1))
                     else if cmd = NETWORK_CLICK_ACK then
                       (case isNetworkClickExpired cfg clickableIndex clickType s of
                          (expired, s1) \<Rightarrow>
                            if \<not> expired then
                              (case confirm clickableIndex clickType s1 of
                                 Inl e \<Rightarrow> Inl e
                               | Inr (r, s2) \<Rightarrow>
                                   Inr (result\<lparr>stateChanged := r, networkClickHandled := r\<rparr>, s2))
                            else Inr (result, s1))
                     else Inr (result, s))))"

definition deserializeAndDispatch ::
  "Config \<Rightarrow> ReceivedDocument \<Rightarrow> System \<Rightarrow> error + DispatchResult \<times> System" where
  "deserializeAndDispatch cfg doc s =
     (let result = \<lparr>stateChanged = False, networkClickHandled = False\<rparr>;
          cmd = doc_p doc
      in if cmd = SET_SINGLE_ACTUATOR then
           (let actuatorId = doc_i doc
            in if \<not> actuatorExists actuatorId s then Inr (result, s)
               else
                 (case doc_s doc of
                    S_UInt8 v \<Rightarrow>
                      (case Actuators_getIndex actuatorId s of
                         Inl e \<Rightarrow> Inl e
                       | Inr i \<Rightarrow>
                           (case call_actuator i (setState cfg (timeKeeper_now s) (v = 1)) s of
                              Inl e \<Rightarrow> Inl e
                            | Inr (r, s1) \<Rightarrow> Inr (result\<lparr>stateChanged := r\<rparr>, s1)))
                  | _ \<Rightarrow> Inr (result, s)))
         else if cmd = SET_STATE then
           (if length (statesArray (doc_s doc)) \<noteq> unat (totalActuators s) then Inr (result, s)
            else
              (case or_each (\<lambda>iv s1.
                        call_actuator (fst iv) (setState cfg (timeKeeper_now s1) (snd iv = 1)) s1)
                      (zip (indices (totalActuators s)) (statesArray (doc_s doc))) False s of
                 Inl e \<Rightarrow> Inl e
               | Inr (anyStateChanged, s1) \<Rightarrow> Inr (result\<lparr>stateChanged := anyStateChanged\<rparr>, s1)))
         else if cmd = NETWORK_CLICK_ACK \<or> cmd = FAILOVER_CLICK then
           processNetworkClickResponse cfg doc cmd result s
         else if cmd = FAILOVER then
           (case checkAllNetworkClicksTimers cfg True s of
              Inl e \<Rightarrow> Inl e
            | Inr (r, s1) \<Rightarrow> Inr (result\<lparr>stateChanged := r\<rparr>, s1))
         else if cmd = REQUEST_STATE then
           (case serializeActuatorsState s of
              Inl e \<Rightarrow> Inl e
            | Inr s1 \<Rightarrow> Inr (result\<lparr>stateChanged := False\<rparr>, s1))
         else if cmd = REQUEST_DETAILS then
           (case serializeDetails cfg s of
              Inl e \<Rightarrow> Inl e
            | Inr s1 \<Rightarrow> Inr (result\<lparr>stateChanged := False\<rparr>, s1))
         else if cmd = BOOT then
           (case serializeDetails cfg s of
              Inl e \<Rightarrow> Inl e
            | Inr s1 \<Rightarrow>
                (case serializeActuatorsState s1 of
                   Inl e \<Rightarrow> Inl e
                 | Inr s2 \<Rightarrow> Inr (result\<lparr>stateChanged := False\<rparr>, s2)))
         else Inr (result, s))"

subsection \<open>The click dispatch of the main loop (core/lsh_core.cpp)\<close>

text \<open>The two static flags of \<open>LSH::loop\<close>.\<close>

record LoopFlags =
  mustSendState :: bool
  mustCheckNetworkClicks :: bool

text \<open>
  The \<open>switch\<close> on the result of \<open>clickDetection\<close> in the body of the loop over the
  clickables. \<open>currClickable\<close> is the clickable just polled.
\<close>

definition dispatchClickResult ::
  "Config \<Rightarrow> Clickable \<Rightarrow> ClickResult \<Rightarrow> LoopFlags \<Rightarrow> System \<Rightarrow> error + LoopFlags \<times> System" where
  "dispatchClickResult cfg currClickable clickResult flags s =
     (if clickResult = SHORT_CLICK \<or> clickResult = SHORT_CLICK_QUICK then
        (case shortClick cfg currClickable s of
           Inl e \<Rightarrow> Inl e
         | Inr (r, s1) \<Rightarrow> Inr (flags\<lparr>mustSendState := mustSendState flags \<or> r\<rparr>, s1))
      else if clickResult = LONG_CLICK then
        (if isNetworkClickable LONG currClickable then
           (if isConnected cfg s then
              (case request cfg (c_index currClickable) LONG s of
                 Inl e \<Rightarrow> Inl e
               | Inr s1 \<Rightarrow> Inr (flags\<lparr>mustCheckNetworkClicks := True\<rparr>, s1))
            else if getNetworkFallback LONG currClickable = LOCAL_FALLBACK then
              (case longClick cfg currClickable s of
                 Inl e \<Rightarrow> Inl e
               | Inr (r, s1) \<Rightarrow> Inr (flags\<lparr>mustSendState := mustSendState flags \<or> r\<rparr>, s1))
            else Inr (flags, s))
         else
           (case longClick cfg currClickable s of
              Inl e \<Rightarrow> Inl e
            | Inr (r, s1) \<Rightarrow> Inr (flags\<lparr>mustSendState := mustSendState flags \<or> r\<rparr>, s1)))
      else if clickResult = SUPER_LONG_CLICK then
        (if isNetworkClickable SUPER_LONG currClickable then
           (if isConnected cfg s then
              (case request cfg (c_index currClickable) SUPER_LONG s of
                 Inl e \<Rightarrow> Inl e
               | Inr s1 \<Rightarrow> Inr (flags\<lparr>mustCheckNetworkClicks := True\<rparr>, s1))
            else if getNetworkFallback SUPER_LONG currClickable = LOCAL_FALLBACK then
              (case click cfg currClickable SUPER_LONG s of
                 Inl e \<Rightarrow> Inl e
               | Inr (r, s1) \<Rightarrow> Inr (flags\<lparr>mustSendState := mustSendState flags \<or> r\<rparr>, s1))
            else Inr (flags, s))
         else
           (case click cfg currClickable SUPER_LONG s of
              Inl e \<Rightarrow> Inl e
            | Inr (r, s1) \<Rightarrow> Inr (flags\<lparr>mustSendState := mustSendState flags \<or> r\<rparr>, s1)))
      else Inr (flags, s))"

text \<open>
  One pass of the body of \<open>for (uint8_t i = 0; i < Clickables::totalClickables; ++i)\<close>:
  the clickable in slot \<open>i\<close> is polled with the level of its pin (\<open>digitalRead\<close>, given
  by \<open>level\<close>) and the action for the result is carried out.
\<close>

definition pollClickable ::
  "Config \<Rightarrow> (u8 \<Rightarrow> bool) \<Rightarrow> u8 \<Rightarrow> LoopFlags \<Rightarrow> System \<Rightarrow> error + LoopFlags \<times> System" where
  "pollClickable cfg level i flags s =
     (case clickable_at s i of
        Inl e \<Rightarrow> Inl e
      | Inr c \<Rightarrow>
          (case clickDetection (level (c_pinNumber c)) (timeKeeper_now s) c of
             (clickResult, currClickable) \<Rightarrow>
               dispatchClickResult cfg currClickable clickResult flags
                 (s\<lparr>clickables := (clickables s)[unat i := Some currClickable]\<rparr>)))"

section \<open>Notions used in the statements\<close>

text \<open>The map of pending network clicks of one click type; the click types that are
  never sent over the network have none.\<close>

definition pending_map :: "ClickType \<Rightarrow> System \<Rightarrow> (u8 \<times> u32) list" where
  "pending_map clickType s =
     (case clickType of
        LONG \<Rightarrow> longClickedNetworkClickables s
      | SUPER_LONG \<Rightarrow> superLongClickedNetworkClickables s
      | _ \<Rightarrow> [])"

text \<open>The wire record \<open>{p: 3, t: t, i: i, c: c}\<close>, and the wire value of a click type.\<close>

definition network_click_record :: "u8 \<Rightarrow> u8 \<Rightarrow> u8 \<Rightarrow> JsonDocument" where
  "network_click_record t i c =
     [(KEY_PAYLOAD, JUInt NETWORK_CLICK), (KEY_TYPE, JUInt t), (KEY_ID, JUInt i), (KEY_CONFIRM, JUInt c)]"

definition wire_click_type :: "ClickType \<Rightarrow> u8" where
  "wire_click_type clickType = (if clickType = LONG then 1 else 2)"

text \<open>Whether the actuator in slot \<open>i\<close> is on.\<close>

definition is_on :: "System \<Rightarrow> u8 \<Rightarrow> bool" where
  "is_on s i = (case actuator_at s i of Inl e \<Rightarrow> False | Inr a \<Rightarrow> actualState a)"

text \<open>
  The effect of a long click, said of the state before it. The actuator in slot \<open>k\<close>
  is switched by a request for \<open>target\<close> when its state differs from \<open>target\<close> and its
  last switch is not less than the switch debounce time ago.
\<close>

definition would_switch :: "Config \<Rightarrow> bool \<Rightarrow> System \<Rightarrow> nat \<Rightarrow> bool" where
  "would_switch cfg target s k \<longleftrightarrow>
     (case actuators s ! k of
        None \<Rightarrow> False
      | Some a \<Rightarrow>
          actualState a \<noteq> target
          \<and> \<not> timeKeeper_now s - lastTimeSwitched a < ucast (ACTUATOR_DEBOUNCE_TIME_MS cfg))"

text \<open>An actuator once switched to \<open>target\<close> at time \<open>t\<close>.\<close>

definition switched_to :: "bool \<Rightarrow> u32 \<Rightarrow> Actuator \<Rightarrow> Actuator" where
  "switched_to target t a = a\<lparr>actualState := target, lastTimeSwitched := t\<rparr>"

text \<open>A list without the repetitions of its elements, in the order of their first
  occurrence.\<close>

fun first_occurrences :: "'a list \<Rightarrow> 'a list" where
  "first_occurrences [] = []"
| "first_occurrences (x # xs) = x # first_occurrences (filter (\<lambda>y. y \<noteq> x) xs)"

text \<open>
  The registry array once the slots of \<open>ks\<close> have been asked for \<open>target\<close>: the slots of
  \<open>ks\<close> that are switched hold the actuator with its new state and switch time, every other
  slot is as before.
\<close>

definition slots_after :: "Config \<Rightarrow> bool \<Rightarrow> System \<Rightarrow> nat set \<Rightarrow> Actuator option list" where
  "slots_after cfg target s ks =
     map (\<lambda>k. if k \<in> ks \<and> would_switch cfg target s k
               then map_option (switched_to target (timeKeeper_now s)) (actuators s ! k)
               else actuators s ! k)
       [0..<length (actuators s)]"

text \<open>
  The pin writes of the same requests, made in the order of the list \<open>ks\<close>: one write of
  \<open>target\<close> on the pin of each actuator that is switched, at its first occurrence in the
  list.
\<close>

definition writes_of :: "Config \<Rightarrow> bool \<Rightarrow> System \<Rightarrow> nat list \<Rightarrow> PinLog" where
  "writes_of cfg target s ks =
     map (\<lambda>k. (a_pinNumber (the (actuators s ! k)), target))
       (first_occurrences (filter (would_switch cfg target s) ks))"

text \<open>
  A registry array as \<open>addActuator\<close> / \<open>addClickable\<close> leave it: one slot per unit of
  capacity, the first \<open>registered\<close> slots set and the others still null.
\<close>

definition registry_filled :: "nat \<Rightarrow> 'a option list \<Rightarrow> nat \<Rightarrow> bool" where
  "registry_filled capacity slots registered \<longleftrightarrow>
     length slots = capacity \<and> registered \<le> capacity
     \<and> (\<forall>i<capacity. (slots ! i \<noteq> None) = (i < registered))"

section \<open>Example configurations\<close>

text \<open>
  A button as a user's \<open>configure()\<close> sets it up: short click on actuator 0, long click
  disabled (the default), super-long click enabled; then \<open>check\<close> as run by
  \<open>Clickables::finalizeSetup\<close>. The timings are the defaults: debounce 20 ms, long 400 ms,
  super-long 1000 ms.
\<close>

definition short_and_super_long_button :: Clickable where
  "short_and_super_long_button =
     snd (check (addActuator_to 0 SHORT
       (setClickableSuperLong True SLCT_NORMAL False LOCAL_FALLBACK (new_Clickable 2 1))))"

text \<open>A button with short, long and super-long click enabled.\<close>

definition full_button :: Clickable where
  "full_button =
     snd (check (addActuator_to 1 LONG (addActuator_to 0 SHORT
       (setClickableSuperLong True SLCT_NORMAL False LOCAL_FALLBACK
         (setClickableLong True LCT_NORMAL False LOCAL_FALLBACK (new_Clickable 2 1))))))"

text \<open>
  A device with two relays (ids 1 and 2, on pins 7 and 8) and two buttons (ids 1 and 2),
  as it stands after \<open>setup()\<close>, at time 5000 ms, with the bridge last heard at 4900 ms.
  The first button sends its long click over the network.
\<close>

definition network_button :: Clickable where
  "network_button =
     snd (check (addActuator_to 1 LONG (addActuator_to 0 SHORT
       (setClickableLong True LCT_NORMAL True LOCAL_FALLBACK (new_Clickable 2 1)))))"

definition example_system :: System where
  "example_system =
     \<lparr> timeKeeper_now = 5000, totalActuators = 2,
       actuators = [Some (new_Actuator 7 1 False), Some ((new_Actuator 8 2 False)\<lparr>a_index := 1\<rparr>)],
       actuatorsMap = [(1, 0), (2, 1)], actuatorsWithAutoOffIndexes = [],
       totalClickables = 2,
       clickables = [Some network_button, Some (full_button\<lparr>c_index := 1, c_id := 2, c_pinNumber := 3\<rparr>)],
       clickablesMap = [(1, 0), (2, 1)],
       longClickedNetworkClickables = [], superLongClickedNetworkClickables = [],
       lastSentPayloadTime_ms = 0, lastReceivedPayloadTime_ms = 4900,
       firstValidPayloadReceived = True, serial = [], pins = [] \<rparr>"

text \<open>The same device while the first button is held: its press was confirmed at
  4500 ms.\<close>

definition pressing_system :: System where
  "pressing_system =
     example_system\<lparr>clickables :=
       [Some (network_button\<lparr>currentState := PRESSED, stateChangeTime := 4500\<rparr>),
        Some (full_button\<lparr>c_index := 1, c_id := 2, c_pinNumber := 3\<rparr>)]\<rparr>"

text \<open>The first relay switched on at 4940 ms with an auto-off timer of 50 ms, which is
  shorter than the switch debounce of 100 ms; the time is 5000 ms.\<close>

definition short_timer_relay :: Actuator where
  "short_timer_relay =
     (setAutoOffTimer 50 (new_Actuator 7 1 False))\<lparr>actualState := True, lastTimeSwitched := 4940\<rparr>"

definition short_timer_system :: System where
  "short_timer_system =
     example_system\<lparr>actuators := [Some short_timer_relay, Some ((new_Actuator 8 2 False)\<lparr>a_index := 1\<rparr>)],
                    actuatorsWithAutoOffIndexes := [0]\<rparr>"

text \<open>The first relay switched on at 5000 ms with the ten-minute timer of the user
  guide; the time is 700000 ms.\<close>

definition long_timer_relay :: Actuator where
  "long_timer_relay =
     (setAutoOffTimer 600000 (new_Actuator 7 1 False))\<lparr>actualState := True, lastTimeSwitched := 5000\<rparr>"

definition long_timer_system :: System where
  "long_timer_system =
     example_system\<lparr>timeKeeper_now := 700000,
                    actuators := [Some long_timer_relay, Some ((new_Actuator 8 2 False)\<lparr>a_index := 1\<rparr>)],
                    actuatorsWithAutoOffIndexes := [0]\<rparr>"

text \<open>A button whose long click (NORMAL) drives both relays.\<close>

definition two_relay_button :: Clickable where
  "two_relay_button =
     snd (check (addActuator_to 1 LONG (addActuator_to 0 LONG
       (setClickableLong True LCT_NORMAL False LOCAL_FALLBACK (new_Clickable 2 1)))))"

text \<open>A device configured with one relay and one button only, on a build with room for
  two of each.\<close>

definition spare_system :: System where
  "spare_system =
     example_system\<lparr>totalActuators := 1, actuators := [Some (new_Actuator 7 1 False), None],
                    actuatorsMap := [(1, 0)],
                    totalClickables := 1, clickables := [Some network_button, None],
                    clickablesMap := [(1, 0)]\<rparr>"

section \<open>Properties of the actuator\<close>

text \<open>
  C4. \<open>Actuator::setState(target)\<close> returns false and changes neither the actuator nor
  the hardware when \<open>target\<close> equals the current state or when
  \<open>now - lastTimeSwitched\<close> is below the switch debounce constant; otherwise it writes
  the hardware output, sets the state to \<open>target\<close> and \<open>lastTimeSwitched\<close> to \<open>now\<close>,
  and returns true.
\<close>

theorem setState_spec:
  "setState cfg now target a hw =
     (if target = actualState a \<or>
         now - lastTimeSwitched a < ucast (ACTUATOR_DEBOUNCE_TIME_MS cfg)
      then (False, a, hw)
      else (True, a\<lparr>actualState := target, lastTimeSwitched := now\<rparr>,
            hw @ [(a_pinNumber a, target)]))"
proof (cases "ACTUATOR_DEBOUNCE_TIME_MS cfg = 0")
  case True
  then have "\<not> now - lastTimeSwitched a < ucast (ACTUATOR_DEBOUNCE_TIME_MS cfg)"
    by simp
  with True show ?thesis
    by (auto simp: setState_def digitalWrite_def)
next
  case False
  then show ?thesis
    by (auto simp: setState_def digitalWrite_def)
qed

theorem setState_spec_witness:
  "setState default_config 250 True (new_Actuator 7 1 False) [] =
     (True, (new_Actuator 7 1 False)\<lparr>actualState := True, lastTimeSwitched := 250\<rparr>, [(7, True)])
   \<and> setState default_config 300 False
        ((new_Actuator 7 1 False)\<lparr>actualState := True, lastTimeSwitched := 250\<rparr>) [(7, True)] =
     (False, (new_Actuator 7 1 False)\<lparr>actualState := True, lastTimeSwitched := 250\<rparr>, [(7, True)])"
  using setState_spec [of default_config 250 True "new_Actuator 7 1 False" "[]"]
    setState_spec [of default_config 300 False
      "(new_Actuator 7 1 False)\<lparr>actualState := True, lastTimeSwitched := 250\<rparr>" "[(7, True)]"]
  by (simp add: default_config_def new_Actuator_def)

text \<open>Of two \<open>setState\<close> calls less than the debounce time apart, the second changes
  nothing, whatever its target.\<close>

lemma setState_twice_within_debounce:
  assumes "setState cfg t1 target a hw = (True, a1, hw1)"
    and "t2 - t1 < ucast (ACTUATOR_DEBOUNCE_TIME_MS cfg)"
  shows "setState cfg t2 target2 a1 hw1 = (False, a1, hw1)"
proof -
  from assms(1) have "lastTimeSwitched a1 = t1"
    by (auto simp: setState_def split: if_splits)
  moreover from assms(2) have "ACTUATOR_DEBOUNCE_TIME_MS cfg \<noteq> 0" by auto
  ultimately show ?thesis using assms(2) by (simp add: setState_def)
qed


section \<open>Properties of the click-detection state machine\<close>

subsection \<open>Runs of polls\<close>

lemma polls_Cons_snd:
  "snd (clickDetection_polls (p # ps) c) =
     snd (clickDetection_polls ps (snd (clickDetection (fst p) (snd p) c)))"
  by (simp split: prod.splits)

lemma polls_Cons_fst:
  "fst (clickDetection_polls (p # ps) c) =
     fst (clickDetection (fst p) (snd p) c)
       # fst (clickDetection_polls ps (snd (clickDetection (fst p) (snd p) c)))"
  by (simp split: prod.splits)

lemma polls_append_snd:
  "snd (clickDetection_polls (ps @ qs) c) =
     snd (clickDetection_polls qs (snd (clickDetection_polls ps c)))"
  by (induction ps arbitrary: c) (simp_all add: polls_Cons_snd del: clickDetection_polls.simps(2))

lemma polls_append_fst:
  "fst (clickDetection_polls (ps @ qs) c) =
     fst (clickDetection_polls ps c) @ fst (clickDetection_polls qs (snd (clickDetection_polls ps c)))"
  by (induction ps arbitrary: c)
    (simp_all add: polls_Cons_snd polls_Cons_fst del: clickDetection_polls.simps(2))

lemma confirm_step:
  assumes "currentState c = DEBOUNCING" "t0 - stateChangeTime c \<ge> ucast (debounce_ms c)"
  shows "snd (clickDetection True t0 c) =
           c\<lparr>currentState := PRESSED, stateChangeTime := t0, lastActionFired := AF_NONE\<rparr>"
  using assms by (simp add: clickDetection_def)

lemma held_step:
  assumes "currentState c = PRESSED"
  shows "clickDetection True t c =
     (if isSuperLongClickable c \<and> lastActionFired c \<noteq> AF_SUPER_LONG
          \<and> t - stateChangeTime c \<ge> ucast (superLongClick_ms c)
      then (SUPER_LONG_CLICK, c\<lparr>lastActionFired := AF_SUPER_LONG\<rparr>)
      else if isLongClickable c \<and> lastActionFired c = AF_NONE
          \<and> t - stateChangeTime c \<ge> ucast (longClick_ms c)
      then (LONG_CLICK, c\<lparr>lastActionFired := AF_LONG\<rparr>)
      else (NO_CLICK_KEEPING_CLICKED, c))"
  using assms by (cases "lastActionFired c") (simp_all add: clickDetection_def Let_def)


lemma held_step_shape:
  assumes "currentState c = PRESSED"
  shows "\<exists>x. snd (clickDetection True t c) = c\<lparr>lastActionFired := x\<rparr>
          \<and> (lastActionFired c \<noteq> AF_NONE \<longrightarrow> x \<noteq> AF_NONE)
          \<and> (isLongClickable c \<and> t - stateChangeTime c \<ge> ucast (longClick_ms c) \<longrightarrow> x \<noteq> AF_NONE)"
proof -
  let ?A = "isSuperLongClickable c \<and> lastActionFired c \<noteq> AF_SUPER_LONG
          \<and> t - stateChangeTime c \<ge> ucast (superLongClick_ms c)"
  let ?B = "isLongClickable c \<and> lastActionFired c = AF_NONE
          \<and> t - stateChangeTime c \<ge> ucast (longClick_ms c)"
  have same: "c\<lparr>lastActionFired := lastActionFired c\<rparr> = c" by simp
  show ?thesis
  proof (cases ?A)
    case True
    then have "snd (clickDetection True t c) = c\<lparr>lastActionFired := AF_SUPER_LONG\<rparr>"
      by (simp add: held_step [OF assms])
    then show ?thesis by (intro exI [of _ AF_SUPER_LONG]) simp
  next
    case notA: False
    show ?thesis
    proof (cases ?B)
      case True
      with notA have "snd (clickDetection True t c) = c\<lparr>lastActionFired := AF_LONG\<rparr>"
        by (simp add: held_step [OF assms])
      then show ?thesis by (intro exI [of _ AF_LONG]) simp
    next
      case False
      with notA have "snd (clickDetection True t c) = c\<lparr>lastActionFired := lastActionFired c\<rparr>"
        by (simp only: held_step [OF assms] if_False snd_conv same)
      with False show ?thesis by (intro exI [of _ "lastActionFired c"]) auto
    qed
  qed
qed

lemma held_polls_shape:
  assumes "currentState c = PRESSED" "\<forall>p\<in>set ps. fst p"
  shows "\<exists>x. snd (clickDetection_polls ps c) = c\<lparr>lastActionFired := x\<rparr>
          \<and> (lastActionFired c \<noteq> AF_NONE \<longrightarrow> x \<noteq> AF_NONE)"
  using assms
proof (induction ps arbitrary: c)
  case Nil
  have "c\<lparr>lastActionFired := lastActionFired c\<rparr> = c" by simp
  then show ?case by (intro exI [of _ "lastActionFired c"]) simp
next
  case (Cons p ps)
  from Cons.prems have p: "fst p" and ps: "\<forall>q\<in>set ps. fst q" by auto
  obtain x where x: "snd (clickDetection True (snd p) c) = c\<lparr>lastActionFired := x\<rparr>"
    and keep: "lastActionFired c \<noteq> AF_NONE \<longrightarrow> x \<noteq> AF_NONE"
    using held_step_shape [OF Cons.prems(1)] by blast
  let ?c1 = "c\<lparr>lastActionFired := x\<rparr>"
  have "currentState ?c1 = PRESSED" using Cons.prems(1) by simp
  from Cons.IH [OF this ps] obtain y where
    y: "snd (clickDetection_polls ps ?c1) = ?c1\<lparr>lastActionFired := y\<rparr>"
    and keep2: "lastActionFired ?c1 \<noteq> AF_NONE \<longrightarrow> y \<noteq> AF_NONE" by blast
  have "snd (clickDetection_polls (p # ps) c) = snd (clickDetection_polls ps ?c1)"
    using p x by (simp add: polls_Cons_snd del: clickDetection_polls.simps(2))
  with y keep keep2 show ?case by (intro exI [of _ y]) simp
qed


lemma release_after_action:
  assumes "currentState c = PRESSED" "lastActionFired c \<noteq> AF_NONE"
  shows "fst (clickDetection False t c) = NO_CLICK"
  using assms by (simp add: clickDetection_def released_def Let_def)

lemma long_press_release_NO_CLICK:
  assumes deb: "currentState c = DEBOUNCING"
    and long: "isLongClickable c"
    and confirm: "t0 - stateChangeTime c \<ge> ucast (debounce_ms c)"
    and held: "\<forall>p\<in>set held. fst p"
    and dur: "\<exists>p\<in>set held. snd p - t0 \<ge> ucast (longClick_ms c)"
  shows "last (fst (clickDetection_polls ((True, t0) # held @ [(False, tr)]) c)) = NO_CLICK"
proof -
  let ?c0 = "c\<lparr>currentState := PRESSED, stateChangeTime := t0, lastActionFired := AF_NONE\<rparr>"
  from dur obtain p where pin: "p \<in> set held" and pd: "snd p - t0 \<ge> ucast (longClick_ms c)"
    by blast
  from pin obtain xs ys where split: "held = xs @ p # ys" by (auto dest: split_list)
  have xs: "\<forall>q\<in>set xs. fst q" and ys: "\<forall>q\<in>set ys. fst q" and p: "fst p"
    using held split by auto
  have c0: "currentState ?c0 = PRESSED" by simp
  obtain x where x: "snd (clickDetection_polls xs ?c0) = ?c0\<lparr>lastActionFired := x\<rparr>"
    using held_polls_shape [OF c0 xs] by blast
  let ?c1 = "?c0\<lparr>lastActionFired := x\<rparr>"
  have c1: "currentState ?c1 = PRESSED" by simp
  obtain y where y: "snd (clickDetection True (snd p) ?c1) = ?c1\<lparr>lastActionFired := y\<rparr>"
    and yn: "y \<noteq> AF_NONE"
    using held_step_shape [OF c1, of "snd p"] long pd by auto
  let ?c2 = "?c1\<lparr>lastActionFired := y\<rparr>"
  have c2: "currentState ?c2 = PRESSED" by simp
  obtain z where z: "snd (clickDetection_polls ys ?c2) = ?c2\<lparr>lastActionFired := z\<rparr>"
    and zn: "z \<noteq> AF_NONE"
    using held_polls_shape [OF c2 ys] yn by auto
  let ?c3 = "?c2\<lparr>lastActionFired := z\<rparr>"
  have rel: "fst (clickDetection False tr ?c3) = NO_CLICK"
    by (rule release_after_action) (simp_all add: zn)
  have s0: "snd (clickDetection True t0 c) = ?c0"
    by (rule confirm_step [OF deb confirm])
  have s2: "snd (clickDetection_polls (p # ys) ?c1) = ?c3"
    using y z p by (simp add: polls_Cons_snd del: clickDetection_polls.simps(2))
  have "snd (clickDetection_polls held ?c0) = ?c3"
    using x s2 unfolding split polls_append_snd by simp
  then have "snd (clickDetection_polls ((True, t0) # held) c) = ?c3"
    using s0 by (simp add: polls_Cons_snd del: clickDetection_polls.simps(2))
  then have "fst (clickDetection_polls (((True, t0) # held) @ [(False, tr)]) c)
       = fst (clickDetection_polls ((True, t0) # held) c) @ [NO_CLICK]"
    using rel unfolding polls_append_fst [of "(True, t0) # held" "[(False, tr)]" c]
    by (simp add: polls_Cons_fst del: clickDetection_polls.simps(2))
  then show ?thesis by simp
qed


lemma held_after_super_long:
  assumes "currentState c = PRESSED" "lastActionFired c = AF_SUPER_LONG" "\<forall>p\<in>set ps. fst p"
  shows "clickDetection_polls ps c = (replicate (length ps) NO_CLICK_KEEPING_CLICKED, c)"
  using assms
proof (induction ps)
  case Nil
  then show ?case by simp
next
  case (Cons p ps)
  then have "clickDetection (fst p) (snd p) c = (NO_CLICK_KEEPING_CLICKED, c)"
    by (simp add: held_step)
  with Cons show ?case by simp
qed

lemma held_reaches_super_long:
  assumes "currentState c = PRESSED" "isSuperLongClickable c"
    and "lastActionFired c \<noteq> AF_SUPER_LONG"
    and "\<forall>p\<in>set ps. fst p"
    and "\<exists>p\<in>set ps. snd p - stateChangeTime c \<ge> ucast (superLongClick_ms c)"
  shows "\<exists>pre post. fst (clickDetection_polls ps c) = pre @ SUPER_LONG_CLICK # post
           \<and> SUPER_LONG_CLICK \<notin> set pre \<and> SUPER_LONG_CLICK \<notin> set post
           \<and> LONG_CLICK \<notin> set post
           \<and> lastActionFired (snd (clickDetection_polls ps c)) = AF_SUPER_LONG
           \<and> currentState (snd (clickDetection_polls ps c)) = PRESSED"
  using assms
proof (induction ps arbitrary: c)
  case Nil
  then show ?case by simp
next
  case (Cons p ps)
  from Cons.prems have p: "fst p" and ps: "\<forall>q\<in>set ps. fst q" by auto
  note step = held_step [OF Cons.prems(1), of "snd p"]
  show ?case
  proof (cases "snd p - stateChangeTime c \<ge> ucast (superLongClick_ms c)")
    case True
    let ?c1 = "c\<lparr>lastActionFired := AF_SUPER_LONG\<rparr>"
    have r: "clickDetection (fst p) (snd p) c = (SUPER_LONG_CLICK, ?c1)"
      using True p Cons.prems(2,3) by (simp add: step)
    have rest: "clickDetection_polls ps ?c1 = (replicate (length ps) NO_CLICK_KEEPING_CLICKED, ?c1)"
      by (rule held_after_super_long) (use Cons.prems(1) ps in simp_all)
    have "fst (clickDetection_polls (p # ps) c)
            = [] @ SUPER_LONG_CLICK # replicate (length ps) NO_CLICK_KEEPING_CLICKED"
      and "snd (clickDetection_polls (p # ps) c) = ?c1"
      using r rest by simp_all
    then show ?thesis
      using Cons.prems(1)
      by (intro exI [of _ "[]"] exI [of _ "replicate (length ps) NO_CLICK_KEEPING_CLICKED"]) simp
  next
    case False
    then obtain r x where r: "clickDetection (fst p) (snd p) c = (r, c\<lparr>lastActionFired := x\<rparr>)"
      and rn: "r \<noteq> SUPER_LONG_CLICK" and xn: "x \<noteq> AF_SUPER_LONG"
    proof (cases "isLongClickable c \<and> lastActionFired c = AF_NONE
          \<and> snd p - stateChangeTime c \<ge> ucast (longClick_ms c)")
      case True
      with False p have "clickDetection (fst p) (snd p) c = (LONG_CLICK, c\<lparr>lastActionFired := AF_LONG\<rparr>)"
        by (simp add: step)
      then show ?thesis by (intro that [of LONG_CLICK AF_LONG]) simp_all
    next
      case nB: False
      have same: "c\<lparr>lastActionFired := lastActionFired c\<rparr> = c" by simp
      from False nB p have "clickDetection (fst p) (snd p) c = (NO_CLICK_KEEPING_CLICKED, c)"
        by (simp add: step)
      then show ?thesis
        using Cons.prems(3)
        by (intro that [of NO_CLICK_KEEPING_CLICKED "lastActionFired c"]) (simp_all add: same)
    qed
    let ?c1 = "c\<lparr>lastActionFired := x\<rparr>"
    from False Cons.prems(5)
    have ex: "\<exists>q\<in>set ps. snd q - stateChangeTime ?c1 \<ge> ucast (superLongClick_ms ?c1)"
      by auto
    have "\<exists>pre post. fst (clickDetection_polls ps ?c1) = pre @ SUPER_LONG_CLICK # post
           \<and> SUPER_LONG_CLICK \<notin> set pre \<and> SUPER_LONG_CLICK \<notin> set post
           \<and> LONG_CLICK \<notin> set post
           \<and> lastActionFired (snd (clickDetection_polls ps ?c1)) = AF_SUPER_LONG
           \<and> currentState (snd (clickDetection_polls ps ?c1)) = PRESSED"
      by (rule Cons.IH [OF _ _ _ ps ex]) (use Cons.prems(1,2) xn in simp_all)
    then obtain pre post where
      pp: "fst (clickDetection_polls ps ?c1) = pre @ SUPER_LONG_CLICK # post"
      "SUPER_LONG_CLICK \<notin> set pre" "SUPER_LONG_CLICK \<notin> set post" "LONG_CLICK \<notin> set post"
      "lastActionFired (snd (clickDetection_polls ps ?c1)) = AF_SUPER_LONG"
      "currentState (snd (clickDetection_polls ps ?c1)) = PRESSED"
      by blast
    have "fst (clickDetection_polls (p # ps) c) = (r # pre) @ SUPER_LONG_CLICK # post"
      and "snd (clickDetection_polls (p # ps) c) = snd (clickDetection_polls ps ?c1)"
      using r pp(1) by (simp_all add: polls_Cons_fst polls_Cons_snd del: clickDetection_polls.simps(2))
    then show ?thesis
      using pp rn by (intro exI [of _ "r # pre"] exI [of _ post]) simp
  qed
qed

subsection \<open>No short click after a long press\<close>

text \<open>
  C1 (as stated, refuted). The claim speaks of every clickable. On a button whose long
  click is disabled while its super-long click is enabled, a press confirmed at 20 ms and
  still held at 520 ms, that is 500 ms after its confirmed start and so longer than
  \<open>longClick_ms = 400\<close>, ends in \<open>SHORT_CLICK\<close> when it is released at 521 ms: no timed
  action fired, because the long-click test is guarded by \<open>isLongClickable\<close>.
\<close>

theorem no_spurious_short_counterexample:
  "\<not> isLongClickable short_and_super_long_button
   \<and> isSuperLongClickable short_and_super_long_button
   \<and> currentState (snd (clickDetection True 0 short_and_super_long_button)) = DEBOUNCING
   \<and> ucast (debounce_ms short_and_super_long_button)
        \<le> (20 :: u32) - stateChangeTime (snd (clickDetection True 0 short_and_super_long_button))
   \<and> ucast (longClick_ms short_and_super_long_button) \<le> (520 :: u32) - 20
   \<and> fst (clickDetection_polls [(True, 0), (True, 20), (True, 520), (False, 521)]
           short_and_super_long_button)
      = [NO_CLICK, NO_CLICK, NO_CLICK_KEEPING_CLICKED, SHORT_CLICK]"
  by (simp add: short_and_super_long_button_def check_def new_Clickable_def
      setClickableSuperLong_def clickDetection_def released_def)

text \<open>
  C1 (amended). On a long-clickable button: when the press is confirmed at \<open>t0\<close> (the
  DEBOUNCING-to-PRESSED transition), the button is found pressed at every poll of \<open>held\<close>
  and at least one of these polls comes \<open>longClick_ms\<close> or more after \<open>t0\<close>, then the poll
  that finds the button released does not return \<open>SHORT_CLICK\<close>.
\<close>

theorem no_spurious_short:
  assumes "currentState c = DEBOUNCING"
    and "isLongClickable c"
    and "ucast (debounce_ms c) \<le> t0 - stateChangeTime c"
    and "\<forall>p\<in>set held. fst p"
    and "\<exists>p\<in>set held. ucast (longClick_ms c) \<le> snd p - t0"
  shows "last (fst (clickDetection_polls ((True, t0) # held @ [(False, tr)]) c)) \<noteq> SHORT_CLICK"
  using long_press_release_NO_CLICK [OF assms, of tr] by simp

theorem no_spurious_short_witness:
  "currentState (snd (clickDetection True 0 full_button)) = DEBOUNCING
   \<and> isLongClickable (snd (clickDetection True 0 full_button))
   \<and> last (fst (clickDetection_polls ((True, 20) # [(True, 300), (True, 450)] @ [(False, 460)])
                 (snd (clickDetection True 0 full_button)))) \<noteq> SHORT_CLICK"
proof -
  let ?c = "snd (clickDetection True 0 full_button)"
  have c: "?c = full_button\<lparr>currentState := DEBOUNCING, stateChangeTime := 0\<rparr>"
    by (simp add: full_button_def check_def new_Clickable_def setClickableSuperLong_def
        setClickableLong_def clickDetection_def)
  have 1: "currentState ?c = DEBOUNCING" and 2: "isLongClickable ?c"
    and 3: "ucast (debounce_ms ?c) \<le> (20 :: u32) - stateChangeTime ?c"
    and 5: "\<exists>p\<in>set [(True, 300 :: u32), (True, 450)]. ucast (longClick_ms ?c) \<le> snd p - 20"
    unfolding c
    by (simp_all add: full_button_def check_def new_Clickable_def setClickableSuperLong_def
        setClickableLong_def)
  have 4: "\<forall>p\<in>set [(True, 300 :: u32), (True, 450)]. fst p" by simp
  from no_spurious_short [OF 1 2 3 4 5, of 460] 1 2 show ?thesis by simp
qed

subsection \<open>Super-long click: once per press, and before the long click\<close>

text \<open>
  C2. On a super-long-clickable button, take a press confirmed at \<open>t0\<close> and held through
  the polls \<open>held\<close>, one of which comes \<open>superLongClick_ms\<close> or more after \<open>t0\<close>; \<open>rel\<close> is
  empty or the poll that finds the button released. Then \<open>SUPER_LONG_CLICK\<close> is returned
  exactly once in the press, and no poll after it returns \<open>LONG_CLICK\<close>. And one poll
  that finds both thresholds crossed, with no super-long click fired yet in the press,
  returns \<open>SUPER_LONG_CLICK\<close>: that test comes first.
\<close>

theorem super_long_preemption:
  assumes "currentState c = DEBOUNCING"
    and "isSuperLongClickable c"
    and "ucast (debounce_ms c) \<le> t0 - stateChangeTime c"
    and "\<forall>p\<in>set held. fst p"
    and "\<exists>p\<in>set held. ucast (superLongClick_ms c) \<le> snd p - t0"
    and "rel = [] \<or> rel = [(False, tr)]"
  shows "(\<exists>pre post.
            fst (clickDetection_polls ((True, t0) # held @ rel) c) = pre @ SUPER_LONG_CLICK # post
            \<and> SUPER_LONG_CLICK \<notin> set pre \<and> SUPER_LONG_CLICK \<notin> set post
            \<and> LONG_CLICK \<notin> set post)
       \<and> (\<forall>c1 t. currentState c1 = PRESSED \<and> isSuperLongClickable c1
               \<and> lastActionFired c1 \<noteq> AF_SUPER_LONG
               \<and> ucast (superLongClick_ms c1) \<le> t - stateChangeTime c1
               \<and> ucast (longClick_ms c1) \<le> t - stateChangeTime c1
             \<longrightarrow> clickDetection True t c1 = (SUPER_LONG_CLICK, c1\<lparr>lastActionFired := AF_SUPER_LONG\<rparr>))"
proof (intro conjI allI impI)
  let ?c0 = "c\<lparr>currentState := PRESSED, stateChangeTime := t0, lastActionFired := AF_NONE\<rparr>"
  have s0: "snd (clickDetection True t0 c) = ?c0"
    by (rule confirm_step [OF assms(1,3)])
  have r0: "fst (clickDetection True t0 c) \<noteq> SUPER_LONG_CLICK"
    using assms(1,3) by (simp add: clickDetection_def)
  have "\<exists>pre post. fst (clickDetection_polls held ?c0) = pre @ SUPER_LONG_CLICK # post
           \<and> SUPER_LONG_CLICK \<notin> set pre \<and> SUPER_LONG_CLICK \<notin> set post
           \<and> LONG_CLICK \<notin> set post
           \<and> lastActionFired (snd (clickDetection_polls held ?c0)) = AF_SUPER_LONG
           \<and> currentState (snd (clickDetection_polls held ?c0)) = PRESSED"
    by (rule held_reaches_super_long) (use assms in simp_all)
  then obtain pre post where
    pp: "fst (clickDetection_polls held ?c0) = pre @ SUPER_LONG_CLICK # post"
      "SUPER_LONG_CLICK \<notin> set pre" "SUPER_LONG_CLICK \<notin> set post" "LONG_CLICK \<notin> set post"
    and fin: "lastActionFired (snd (clickDetection_polls held ?c0)) = AF_SUPER_LONG"
      "currentState (snd (clickDetection_polls held ?c0)) = PRESSED"
    by blast
  let ?r0 = "fst (clickDetection True t0 c)"
  have press: "fst (clickDetection_polls ((True, t0) # held) c) = (?r0 # pre) @ SUPER_LONG_CLICK # post"
    and after: "snd (clickDetection_polls ((True, t0) # held) c) = snd (clickDetection_polls held ?c0)"
    using s0 pp(1) by (simp_all add: polls_Cons_fst polls_Cons_snd del: clickDetection_polls.simps(2))
  have whole: "fst (clickDetection_polls (((True, t0) # held) @ rel) c)
      = (?r0 # pre) @ SUPER_LONG_CLICK # (post @ fst (clickDetection_polls rel (snd (clickDetection_polls held ?c0))))"
    unfolding polls_append_fst press after by simp
  have tail: "fst (clickDetection_polls rel (snd (clickDetection_polls held ?c0))) = []
      \<or> fst (clickDetection_polls rel (snd (clickDetection_polls held ?c0))) = [NO_CLICK]"
    using assms(6) release_after_action [OF fin(2), of tr] fin(1)
    by (auto simp add: polls_Cons_fst simp del: clickDetection_polls.simps(2))
  show "\<exists>pre post.
            fst (clickDetection_polls ((True, t0) # held @ rel) c) = pre @ SUPER_LONG_CLICK # post
            \<and> SUPER_LONG_CLICK \<notin> set pre \<and> SUPER_LONG_CLICK \<notin> set post
            \<and> LONG_CLICK \<notin> set post"
    using whole tail pp(2-4) r0
    by (intro exI [of _ "?r0 # pre"]
        exI [of _ "post @ fst (clickDetection_polls rel (snd (clickDetection_polls held ?c0)))"])
      auto
next
  fix c1 :: Clickable and t :: u32
  assume a: "currentState c1 = PRESSED \<and> isSuperLongClickable c1
               \<and> lastActionFired c1 \<noteq> AF_SUPER_LONG
               \<and> ucast (superLongClick_ms c1) \<le> t - stateChangeTime c1
               \<and> ucast (longClick_ms c1) \<le> t - stateChangeTime c1"
  then show "clickDetection True t c1 = (SUPER_LONG_CLICK, c1\<lparr>lastActionFired := AF_SUPER_LONG\<rparr>)"
    by (simp add: held_step)
qed

theorem super_long_preemption_witness:
  "fst (clickDetection_polls ((True, 20) # [(True, 500), (True, 1100), (True, 1200)] @ [(False, 1300)])
          (snd (clickDetection True 0 full_button)))
     = [NO_CLICK, LONG_CLICK] @ SUPER_LONG_CLICK # [NO_CLICK_KEEPING_CLICKED, NO_CLICK]
   \<and> (\<exists>pre post.
        fst (clickDetection_polls ((True, 20) # [(True, 500), (True, 1100), (True, 1200)] @ [(False, 1300)])
               (snd (clickDetection True 0 full_button)))
          = pre @ SUPER_LONG_CLICK # post
        \<and> SUPER_LONG_CLICK \<notin> set pre \<and> SUPER_LONG_CLICK \<notin> set post \<and> LONG_CLICK \<notin> set post)
   \<and> clickDetection True 1100
        (full_button\<lparr>currentState := PRESSED, stateChangeTime := 20\<rparr>)
      = (SUPER_LONG_CLICK,
         full_button\<lparr>currentState := PRESSED, stateChangeTime := 20, lastActionFired := AF_SUPER_LONG\<rparr>)"
proof -
  let ?c = "snd (clickDetection True 0 full_button)"
  let ?held = "[(True, 500 :: u32), (True, 1100), (True, 1200)]"
  have c: "?c = full_button\<lparr>currentState := DEBOUNCING, stateChangeTime := 0\<rparr>"
    by (simp add: full_button_def check_def new_Clickable_def setClickableSuperLong_def
        setClickableLong_def clickDetection_def)
  have 1: "currentState ?c = DEBOUNCING" and 2: "isSuperLongClickable ?c"
    and 3: "ucast (debounce_ms ?c) \<le> (20 :: u32) - stateChangeTime ?c"
    and 5: "\<exists>p\<in>set ?held. ucast (superLongClick_ms ?c) \<le> snd p - 20"
    unfolding c
    by (simp_all add: full_button_def check_def new_Clickable_def setClickableSuperLong_def
        setClickableLong_def)
  have 4: "\<forall>p\<in>set ?held. fst p" by simp
  have 6: "[(False, 1300 :: u32)] = [] \<or> [(False, 1300 :: u32)] = [(False, 1300)]" by simp
  note th = super_long_preemption [OF 1 2 3 4 5 6]
  have run: "fst (clickDetection_polls ((True, 20) # ?held @ [(False, 1300)]) ?c)
     = [NO_CLICK, LONG_CLICK] @ SUPER_LONG_CLICK # [NO_CLICK_KEEPING_CLICKED, NO_CLICK]"
    unfolding c
    by (simp add: full_button_def check_def new_Clickable_def setClickableSuperLong_def
        setClickableLong_def clickDetection_def released_def)
  let ?c1 = "full_button\<lparr>currentState := PRESSED, stateChangeTime := 20\<rparr>"
  have pre: "currentState ?c1 = PRESSED \<and> isSuperLongClickable ?c1
               \<and> lastActionFired ?c1 \<noteq> AF_SUPER_LONG
               \<and> ucast (superLongClick_ms ?c1) \<le> (1100 :: u32) - stateChangeTime ?c1
               \<and> ucast (longClick_ms ?c1) \<le> (1100 :: u32) - stateChangeTime ?c1"
    by (simp add: full_button_def check_def new_Clickable_def setClickableSuperLong_def
        setClickableLong_def)
  from th have "clickDetection True 1100 ?c1 = (SUPER_LONG_CLICK, ?c1\<lparr>lastActionFired := AF_SUPER_LONG\<rparr>)"
    using pre by blast
  with th run show ?thesis by simp
qed

section \<open>Properties of the dispatcher and of the network clicks\<close>

subsection \<open>Maps and registry slots\<close>

lemma map_of_map_assign: "map_of (map_assign k v m) k' = (if k' = k then Some v else map_of m k')"
  by (induction m) auto

lemma map_of_map_erase: "map_of (map_erase k m) k' = (if k' = k then None else map_of m k')"
  by (induction m) (auto simp: map_erase_def)

lemma map_erase_empty_iff: "map_erase k m \<noteq> [] \<longleftrightarrow> (\<exists>k'. k' \<noteq> k \<and> map_of m k' \<noteq> None)"
proof -
  have "map_erase k m \<noteq> [] \<longleftrightarrow> (\<exists>e\<in>set m. fst e \<noteq> k)"
    by (simp add: map_erase_def filter_empty_conv)
  also have "\<dots> \<longleftrightarrow> (\<exists>k'. k' \<noteq> k \<and> k' \<in> fst ` set m)" by auto
  also have "\<dots> \<longleftrightarrow> (\<exists>k'. k' \<noteq> k \<and> map_of m k' \<noteq> None)"
    by (simp add: map_of_eq_None_iff)
  finally show ?thesis .
qed

lemmas command_defs = DEVICE_DETAILS_def ACTUATORS_STATE_def NETWORK_CLICK_def BOOT_def PING_def
  REQUEST_DETAILS_def REQUEST_STATE_def SET_STATE_def SET_SINGLE_ACTUATOR_def
  NETWORK_CLICK_ACK_def FAILOVER_def FAILOVER_CLICK_def
  ProtocolClickType_LONG_def ProtocolClickType_SUPER_LONG_def

lemma clickable_at_Inr_iff:
  "clickable_at s i = Inr c \<longleftrightarrow> unat i < length (clickables s) \<and> clickables s ! unat i = Some c"
  by (auto simp: clickable_at_def split: option.splits)

lemma actuator_at_Inr_iff:
  "actuator_at s i = Inr a \<longleftrightarrow> unat i < length (actuators s) \<and> actuators s ! unat i = Some a"
  by (auto simp: actuator_at_def split: option.splits)

lemma ack_dispatch:
  assumes cmd: "doc_p doc = NETWORK_CLICK_ACK"
    and kind: "clickType = LONG \<or> clickType = SUPER_LONG"
    and t: "doc_t doc = wire_click_type clickType"
    and reg: "map_of (clickablesMap s) (doc_i doc) = Some idx"
    and slot: "clickable_at s idx = Inr c"
    and pend: "map_of (pending_map clickType s) idx = Some t0"
    and fresh: "\<not> timeKeeper_now s - t0 > ucast (LCNB_TIMEOUT_MS cfg)"
  shows "deserializeAndDispatch cfg doc s =
     (let s2 = eraseNetworkClick idx clickType
                 (sendJson (network_click_record (wire_click_type clickType) (c_id c) 1) s);
          r = thereAreActiveNetworkCLicks s2
      in Inr (\<lparr>stateChanged = r, networkClickHandled = r\<rparr>, s2))"
proof -
  from kind show ?thesis
  proof
    assume ct: "clickType = LONG"
    have exp: "isNetworkClickExpired cfg idx LONG s = (False, s)"
      using pend fresh ct by (simp add: isNetworkClickExpired_def pending_map_def)
    have conf: "confirm idx LONG s =
        (let s2 = eraseNetworkClick idx LONG (sendJson (network_click_record 1 (c_id c) 1) s)
         in Inr (thereAreActiveNetworkCLicks s2, s2))"
      using slot by (simp add: confirm_def serializeNetworkClick_def network_click_record_def
          ProtocolClickType_LONG_def)
    show ?thesis
      using cmd t reg ct
      by (simp add: deserializeAndDispatch_def processNetworkClickResponse_def command_defs
          clickableExists_def Clickables_getIndex_def wire_click_type_def exp conf Let_def)
  next
    assume ct: "clickType = SUPER_LONG"
    have exp: "isNetworkClickExpired cfg idx SUPER_LONG s = (False, s)"
      using pend fresh ct by (simp add: isNetworkClickExpired_def pending_map_def)
    have conf: "confirm idx SUPER_LONG s =
        (let s2 = eraseNetworkClick idx SUPER_LONG (sendJson (network_click_record 2 (c_id c) 1) s)
         in Inr (thereAreActiveNetworkCLicks s2, s2))"
      using slot by (simp add: confirm_def serializeNetworkClick_def network_click_record_def
          ProtocolClickType_SUPER_LONG_def)
    show ?thesis
      using cmd t reg ct
      by (simp add: deserializeAndDispatch_def processNetworkClickResponse_def command_defs
          clickableExists_def Clickables_getIndex_def wire_click_type_def exp conf Let_def)
  qed
qed

lemma erase_sendJson_fields:
  "actuators (eraseNetworkClick idx ct (sendJson j s)) = actuators s
   \<and> pins (eraseNetworkClick idx ct (sendJson j s)) = pins s
   \<and> serial (eraseNetworkClick idx ct (sendJson j s)) = serial s @ [j]
   \<and> clickables (eraseNetworkClick idx ct (sendJson j s)) = clickables s"
  by (cases ct) (simp_all add: eraseNetworkClick_def sendJson_def updateLastSentTime_def)

lemma erase_sendJson_pending:
  "pending_map ct' (eraseNetworkClick idx ct (sendJson j s)) =
     (if ct' = ct then map_erase idx (pending_map ct' s) else pending_map ct' s)"
proof (cases ct)
  case CT_NONE
  then show ?thesis
    by (cases ct')
      (simp_all add: eraseNetworkClick_def sendJson_def updateLastSentTime_def pending_map_def map_erase_def)
next
  case SHORT
  then show ?thesis
    by (cases ct')
      (simp_all add: eraseNetworkClick_def sendJson_def updateLastSentTime_def pending_map_def map_erase_def)
next
  case LONG
  then show ?thesis
    by (cases ct')
      (simp_all add: eraseNetworkClick_def sendJson_def updateLastSentTime_def pending_map_def map_erase_def)
next
  case SUPER_LONG
  then show ?thesis
    by (cases ct')
      (simp_all add: eraseNetworkClick_def sendJson_def updateLastSentTime_def pending_map_def map_erase_def)
qed

lemma pending_nonempty_iff:
  "pending_map ct s \<noteq> [] \<longleftrightarrow> (\<exists>k. map_of (pending_map ct s) k \<noteq> None)"
  by (cases "pending_map ct s") (auto simp: map_of_eq_None_iff)

lemma active_after_erase:
  assumes "clickType = LONG \<or> clickType = SUPER_LONG"
  shows "thereAreActiveNetworkCLicks (eraseNetworkClick idx clickType (sendJson j s))
     \<longleftrightarrow> (\<exists>k ct. (k, ct) \<noteq> (idx, clickType) \<and> map_of (pending_map ct s) k \<noteq> None)"
    (is "?l \<longleftrightarrow> ?r")
proof -
  let ?s2 = "eraseNetworkClick idx clickType (sendJson j s)"
  have l: "?l \<longleftrightarrow> pending_map LONG ?s2 \<noteq> [] \<or> pending_map SUPER_LONG ?s2 \<noteq> []"
    by (simp add: thereAreActiveNetworkCLicks_def pending_map_def)
  have same: "pending_map ct ?s2 \<noteq> [] \<longleftrightarrow> (\<exists>k. k \<noteq> idx \<and> map_of (pending_map ct s) k \<noteq> None)"
    if "ct = clickType" for ct
    using that by (simp add: erase_sendJson_pending map_erase_empty_iff)
  have diff: "pending_map ct ?s2 \<noteq> [] \<longleftrightarrow> (\<exists>k. map_of (pending_map ct s) k \<noteq> None)"
    if "ct \<noteq> clickType" for ct
    using that pending_nonempty_iff [of ct s] by (simp add: erase_sendJson_pending)
  show ?thesis
  proof
    assume ?l
    then consider "pending_map LONG ?s2 \<noteq> []" | "pending_map SUPER_LONG ?s2 \<noteq> []"
      using l by blast
    then show ?r
    proof cases
      case 1
      then show ?thesis
        using same [of LONG] diff [of LONG] by (cases "LONG = clickType") auto
    next
      case 2
      then show ?thesis
        using same [of SUPER_LONG] diff [of SUPER_LONG] by (cases "SUPER_LONG = clickType") auto
    qed
  next
    assume ?r
    then obtain k ct where ne: "(k, ct) \<noteq> (idx, clickType)"
      and some: "map_of (pending_map ct s) k \<noteq> None" by blast
    from some have ctk: "ct = LONG \<or> ct = SUPER_LONG"
      by (cases ct) (simp_all add: pending_map_def)
    have "pending_map ct ?s2 \<noteq> []"
    proof (cases "ct = clickType")
      case True
      with ne have "k \<noteq> idx" by simp
      with some show ?thesis using same [OF True] by blast
    next
      case False
      with some show ?thesis using diff [OF False] by blast
    qed
    with ctk l show ?l by blast
  qed
qed


subsection \<open>A state vector of the wrong length\<close>

text \<open>
  C7. An inbound \<open>SET_STATE\<close> record whose state array has a length other than the number
  of registered actuators (a value under \<open>s\<close> that is no array counts as the empty array)
  is dropped: the dispatch returns with both flags false and the device state is the
  one before, so no actuator changed and nothing was sent.
\<close>

theorem SET_STATE_wrong_length_rejected:
  assumes "doc_p doc = SET_STATE"
    and "length (statesArray (doc_s doc)) \<noteq> unat (totalActuators s)"
  shows "deserializeAndDispatch cfg doc s
           = Inr (\<lparr>stateChanged = False, networkClickHandled = False\<rparr>, s)"
  using assms by (simp add: deserializeAndDispatch_def command_defs)


theorem SET_STATE_wrong_length_rejected_witness:
  "deserializeAndDispatch default_config
      \<lparr>doc_p = 12, doc_i = 0, doc_t = 0, doc_s = S_Array [1]\<rparr> example_system
     = Inr (\<lparr>stateChanged = False, networkClickHandled = False\<rparr>, example_system)
   \<and> deserializeAndDispatch default_config
      \<lparr>doc_p = 12, doc_i = 0, doc_t = 0, doc_s = S_Array [1, 0, 1]\<rparr> example_system
     = Inr (\<lparr>stateChanged = False, networkClickHandled = False\<rparr>, example_system)"
  using SET_STATE_wrong_length_rejected
      [of "\<lparr>doc_p = 12, doc_i = 0, doc_t = 0, doc_s = S_Array [1]\<rparr>" example_system default_config]
    SET_STATE_wrong_length_rejected
      [of "\<lparr>doc_p = 12, doc_i = 0, doc_t = 0, doc_s = S_Array [1, 0, 1]\<rparr>" example_system default_config]
  by (simp add: SET_STATE_def example_system_def)

subsection \<open>Expiry of a pending network click\<close>

text \<open>
  C8. \<open>isNetworkClickExpired(idx, kind)\<close>: with no entry for \<open>idx\<close> in the pending map
  of \<open>kind\<close> the result is true and nothing changes; with an entry whose age
  \<open>now - t\<close> is strictly greater than \<open>LCNB_TIMEOUT_MS\<close> the result is true and the entry
  (and only it) is removed from that map; otherwise the result is false and nothing
  changes.
\<close>

theorem isNetworkClickExpired_spec:
  "(case map_of (pending_map clickType s) clickableIndex of
      None \<Rightarrow> isNetworkClickExpired cfg clickableIndex clickType s = (True, s)
    | Some t \<Rightarrow>
        if timeKeeper_now s - t > ucast (LCNB_TIMEOUT_MS cfg)
        then (\<exists>s1. isNetworkClickExpired cfg clickableIndex clickType s = (True, s1)
                \<and> s1 = eraseNetworkClick clickableIndex clickType s
                \<and> map_of (pending_map clickType s1) clickableIndex = None
                \<and> (\<forall>k. k \<noteq> clickableIndex \<longrightarrow>
                       map_of (pending_map clickType s1) k = map_of (pending_map clickType s) k))
        else isNetworkClickExpired cfg clickableIndex clickType s = (False, s))"
  by (cases clickType)
    (auto simp: pending_map_def isNetworkClickExpired_def eraseNetworkClick_def map_of_map_erase
      split: option.splits)



theorem isNetworkClickExpired_spec_witness:
  "isNetworkClickExpired default_config 0 LONG
      (example_system\<lparr>longClickedNetworkClickables := [(0, 3999), (1, 4500)]\<rparr>)
     = (True, example_system\<lparr>longClickedNetworkClickables := [(1, 4500)]\<rparr>)
   \<and> isNetworkClickExpired default_config 1 LONG
      (example_system\<lparr>longClickedNetworkClickables := [(0, 3999), (1, 4500)]\<rparr>)
     = (False, example_system\<lparr>longClickedNetworkClickables := [(0, 3999), (1, 4500)]\<rparr>)
   \<and> isNetworkClickExpired default_config 1 SUPER_LONG
      (example_system\<lparr>longClickedNetworkClickables := [(0, 3999), (1, 4500)]\<rparr>)
     = (True, example_system\<lparr>longClickedNetworkClickables := [(0, 3999), (1, 4500)]\<rparr>)"
  using isNetworkClickExpired_spec
      [where clickType = LONG and clickableIndex = 0 and cfg = default_config
         and s = "example_system\<lparr>longClickedNetworkClickables := [(0, 3999), (1, 4500)]\<rparr>"]
    isNetworkClickExpired_spec
      [where clickType = LONG and clickableIndex = 1 and cfg = default_config
         and s = "example_system\<lparr>longClickedNetworkClickables := [(0, 3999), (1, 4500)]\<rparr>"]
    isNetworkClickExpired_spec
      [where clickType = SUPER_LONG and clickableIndex = 1 and cfg = default_config
         and s = "example_system\<lparr>longClickedNetworkClickables := [(0, 3999), (1, 4500)]\<rparr>"]
  by (simp add: pending_map_def example_system_def default_config_def eraseNetworkClick_def
      map_erase_def)

subsection \<open>The flags of an acknowledged network click\<close>

text \<open>
  C9. An inbound \<open>NETWORK_CLICK_ACK\<close> for an entry that is pending and not expired
  changes no actuator and writes no pin. Both flags of the dispatch result are the value
  returned by \<open>confirm\<close>: whether a network click is still pending in either map once the
  acknowledged entry is removed, that is, whether an entry other than the acknowledged
  one was pending. So the ACK of the only pending entry reports both flags false, and an
  ACK with another entry pending reports \<open>stateChanged\<close> true with no actuator changed.
\<close>

theorem ack_flags:
  assumes "doc_p doc = NETWORK_CLICK_ACK"
    and "clickType = LONG \<or> clickType = SUPER_LONG"
    and "doc_t doc = wire_click_type clickType"
    and "map_of (clickablesMap s) (doc_i doc) = Some idx"
    and "clickable_at s idx = Inr c"
    and "map_of (pending_map clickType s) idx = Some t0"
    and "\<not> timeKeeper_now s - t0 > ucast (LCNB_TIMEOUT_MS cfg)"
  shows "\<exists>r s2. deserializeAndDispatch cfg doc s
                  = Inr (\<lparr>stateChanged = r, networkClickHandled = r\<rparr>, s2)
           \<and> actuators s2 = actuators s \<and> pins s2 = pins s
           \<and> pending_map clickType s2 = map_erase idx (pending_map clickType s)
           \<and> (\<forall>ct. ct \<noteq> clickType \<longrightarrow> pending_map ct s2 = pending_map ct s)
           \<and> r = thereAreActiveNetworkCLicks s2
           \<and> r = (\<exists>k ct. (k, ct) \<noteq> (idx, clickType) \<and> map_of (pending_map ct s) k \<noteq> None)"
proof -
  define j where "j = network_click_record (wire_click_type clickType) (c_id c) 1"
  define s2 where "s2 = eraseNetworkClick idx clickType (sendJson j s)"
  define r where "r = thereAreActiveNetworkCLicks s2"
  have d: "deserializeAndDispatch cfg doc s = Inr (\<lparr>stateChanged = r, networkClickHandled = r\<rparr>, s2)"
    using ack_dispatch [OF assms] by (simp add: Let_def r_def s2_def j_def)
  have f: "actuators s2 = actuators s" "pins s2 = pins s"
    using erase_sendJson_fields [of idx clickType j s] by (simp_all add: s2_def)
  have p1: "pending_map clickType s2 = map_erase idx (pending_map clickType s)"
    by (simp add: s2_def erase_sendJson_pending)
  have p2: "\<forall>ct. ct \<noteq> clickType \<longrightarrow> pending_map ct s2 = pending_map ct s"
    by (simp add: s2_def erase_sendJson_pending)
  have r2: "r = (\<exists>k ct. (k, ct) \<noteq> (idx, clickType) \<and> map_of (pending_map ct s) k \<noteq> None)"
    unfolding r_def s2_def by (rule active_after_erase [OF assms(2)])
  from d f p1 p2 r2 r_def show ?thesis by blast
qed


theorem ack_flags_witness:
  "deserializeAndDispatch default_config \<lparr>doc_p = 14, doc_i = 1, doc_t = 1, doc_s = S_Null\<rparr>
      (example_system\<lparr>longClickedNetworkClickables := [(0, 4500)]\<rparr>)
     = Inr (\<lparr>stateChanged = False, networkClickHandled = False\<rparr>,
            example_system\<lparr>lastSentPayloadTime_ms := 5000,
                            serial := [network_click_record 1 1 1]\<rparr>)
   \<and> (\<exists>s2. deserializeAndDispatch default_config \<lparr>doc_p = 14, doc_i = 1, doc_t = 1, doc_s = S_Null\<rparr>
              (example_system\<lparr>longClickedNetworkClickables := [(0, 4500)],
                               superLongClickedNetworkClickables := [(1, 4600)]\<rparr>)
           = Inr (\<lparr>stateChanged = True, networkClickHandled = True\<rparr>, s2)
         \<and> actuators s2 = actuators example_system)"
proof -
  let ?doc = "\<lparr>doc_p = 14, doc_i = 1, doc_t = 1, doc_s = S_Null\<rparr>"
  let ?s = "example_system\<lparr>longClickedNetworkClickables := [(0, 4500)]\<rparr>"
  let ?s' = "example_system\<lparr>longClickedNetworkClickables := [(0, 4500)],
                               superLongClickedNetworkClickables := [(1, 4600)]\<rparr>"
  have a1: "doc_p ?doc = NETWORK_CLICK_ACK" and a2: "LONG = LONG \<or> LONG = SUPER_LONG"
    and a3: "doc_t ?doc = wire_click_type LONG"
    by (simp_all add: NETWORK_CLICK_ACK_def wire_click_type_def)
  have b4: "map_of (clickablesMap ?s) (doc_i ?doc) = Some 0"
    and b5: "clickable_at ?s 0 = Inr network_button"
    and b6: "map_of (pending_map LONG ?s) 0 = Some 4500"
    and b7: "\<not> timeKeeper_now ?s - 4500 > ucast (LCNB_TIMEOUT_MS default_config)"
    by (simp_all add: example_system_def clickable_at_def pending_map_def default_config_def)
  have c4: "map_of (clickablesMap ?s') (doc_i ?doc) = Some 0"
    and c5: "clickable_at ?s' 0 = Inr network_button"
    and c6: "map_of (pending_map LONG ?s') 0 = Some 4500"
    and c7: "\<not> timeKeeper_now ?s' - 4500 > ucast (LCNB_TIMEOUT_MS default_config)"
    by (simp_all add: example_system_def clickable_at_def pending_map_def default_config_def)
  from ack_flags [OF a1 a2 a3 b4 b5 b6 b7] obtain r s2 where
    d: "deserializeAndDispatch default_config ?doc ?s
          = Inr (\<lparr>stateChanged = r, networkClickHandled = r\<rparr>, s2)"
    and r: "r = (\<exists>k ct. (k, ct) \<noteq> (0, LONG) \<and> map_of (pending_map ct ?s) k \<noteq> None)"
    by blast
  have none: "map_of (pending_map ct ?s) k \<noteq> None \<Longrightarrow> (k, ct) = (0, LONG)" for k ct
    by (cases ct) (simp_all add: pending_map_def example_system_def split: if_splits)
  from r none have "\<not> r" by blast
  have first: "deserializeAndDispatch default_config ?doc ?s
     = Inr (\<lparr>stateChanged = False, networkClickHandled = False\<rparr>,
            example_system\<lparr>lastSentPayloadTime_ms := 5000,
                            serial := [network_click_record 1 1 1]\<rparr>)"
    using ack_dispatch [OF a1 a2 a3 b4 b5 b6 b7]
    by (simp add: Let_def wire_click_type_def eraseNetworkClick_def sendJson_def
        updateLastSentTime_def thereAreActiveNetworkCLicks_def map_erase_def example_system_def
        network_button_def check_def setClickableLong_def new_Clickable_def)
  from ack_flags [OF a1 a2 a3 c4 c5 c6 c7] obtain r' s2' where
    d': "deserializeAndDispatch default_config ?doc ?s'
          = Inr (\<lparr>stateChanged = r', networkClickHandled = r'\<rparr>, s2')"
    and act: "actuators s2' = actuators ?s'"
    and r': "r' = (\<exists>k ct. (k, ct) \<noteq> (0, LONG) \<and> map_of (pending_map ct ?s') k \<noteq> None)"
    by blast
  have "(1 :: u8, SUPER_LONG) \<noteq> (0, LONG) \<and> map_of (pending_map SUPER_LONG ?s') 1 \<noteq> None"
    by (simp add: pending_map_def example_system_def)
  with r' have "r'" by blast
  with d' act have "\<exists>s2. deserializeAndDispatch default_config ?doc ?s'
           = Inr (\<lparr>stateChanged = True, networkClickHandled = True\<rparr>, s2)
         \<and> actuators s2 = actuators example_system"
    by (intro exI [of _ s2']) simp
  with first show ?thesis by blast
qed

subsection \<open>The life of a network click\<close>

lemma LONG_CLICK_step:
  assumes "clickDetection l t c0 = (LONG_CLICK, c)"
  shows "c = c0\<lparr>lastActionFired := AF_LONG\<rparr>"
proof (cases "currentState c0")
  case IDLE
  with assms show ?thesis by (simp add: clickDetection_def split: if_splits)
next
  case DEBOUNCING
  with assms show ?thesis by (simp add: clickDetection_def split: if_splits)
next
  case PRESSED
  show ?thesis
  proof (cases l)
    case True
    with assms held_step [OF PRESSED, of t] show ?thesis by (simp split: if_splits)
  next
    case False
    with assms PRESSED show ?thesis
      by (simp add: clickDetection_def released_def Let_def split: if_splits)
  qed
next
  case RELEASED
  with assms show ?thesis
    by (simp add: clickDetection_def released_def Let_def split: if_splits)
qed

lemma request_LONG:
  assumes slot: "clickable_at s i = Inr c"
    and room: "map_of (longClickedNetworkClickables s) i \<noteq> None
               \<or> length (longClickedNetworkClickables s) < unat (CONFIG_MAX_CLICKABLES cfg)"
  shows "request cfg i LONG s =
     Inr ((sendJson (network_click_record 1 (c_id c) 0) s)
            \<lparr>longClickedNetworkClickables :=
               map_assign i (timeKeeper_now s) (longClickedNetworkClickables s)\<rparr>)"
proof -
  have ser: "serializeNetworkClick i LONG False s = Inr (sendJson (network_click_record 1 (c_id c) 0) s)"
    using slot by (simp add: serializeNetworkClick_def network_click_record_def ProtocolClickType_LONG_def)
  have st: "storeNetworkClickTime cfg i LONG (sendJson j s) =
      Inr ((sendJson j s)\<lparr>longClickedNetworkClickables :=
               map_assign i (timeKeeper_now s) (longClickedNetworkClickables s)\<rparr>)" for j
    using room
    by (auto simp: storeNetworkClickTime_def map_subscript_assign_def sendJson_def updateLastSentTime_def)
  show ?thesis by (simp add: request_def ser st)
qed


lemma poll_LONG_CLICK_network:
  assumes slot: "clickable_at s i = Inr c0"
    and idx: "c_index c0 = i"
    and net: "isNetworkLongClickable c0"
    and det: "clickDetection (level (c_pinNumber c0)) (timeKeeper_now s) c0 = (LONG_CLICK, c)"
    and conn: "isConnected cfg s"
    and room: "map_of (longClickedNetworkClickables s) i \<noteq> None
               \<or> length (longClickedNetworkClickables s) < unat (CONFIG_MAX_CLICKABLES cfg)"
  shows "pollClickable cfg level i flags s =
     Inr (flags\<lparr>mustCheckNetworkClicks := True\<rparr>,
          (sendJson (network_click_record 1 (c_id c0) 0)
             (s\<lparr>clickables := (clickables s)[unat i := Some c]\<rparr>))
            \<lparr>longClickedNetworkClickables :=
               map_assign i (timeKeeper_now s) (longClickedNetworkClickables s)\<rparr>)"
proof -
  let ?s1 = "s\<lparr>clickables := (clickables s)[unat i := Some c]\<rparr>"
  have c: "c = c0\<lparr>lastActionFired := AF_LONG\<rparr>" by (rule LONG_CLICK_step [OF det])
  have len: "unat i < length (clickables s)" using slot by (simp add: clickable_at_Inr_iff)
  have slot1: "clickable_at ?s1 i = Inr c" using len by (simp add: clickable_at_Inr_iff)
  have conn1: "isConnected cfg ?s1" using conn by (simp add: isConnected_def)
  have room1: "map_of (longClickedNetworkClickables ?s1) i \<noteq> None
               \<or> length (longClickedNetworkClickables ?s1) < unat (CONFIG_MAX_CLICKABLES cfg)"
    using room by simp
  have req: "request cfg i LONG ?s1 =
     Inr ((sendJson (network_click_record 1 (c_id c0) 0) ?s1)
            \<lparr>longClickedNetworkClickables :=
               map_assign i (timeKeeper_now s) (longClickedNetworkClickables s)\<rparr>)"
    using request_LONG [OF slot1 room1] by (simp add: c)
  have disp: "dispatchClickResult cfg c LONG_CLICK flags ?s1 =
     (case request cfg i LONG ?s1 of Inl e \<Rightarrow> Inl e
      | Inr s2 \<Rightarrow> Inr (flags\<lparr>mustCheckNetworkClicks := True\<rparr>, s2))"
    using net idx conn1 by (simp add: dispatchClickResult_def c)
  show ?thesis
    by (simp add: pollClickable_def slot det disp req)
qed

text \<open>A pending map whose keys are distinct clickable indices below its capacity has
  room for the index of any clickable that is not yet a key.\<close>

lemma pending_map_has_room:
  fixes m :: "(u8 \<times> 'v) list"
  assumes "distinct (map fst m)"
    and "\<forall>k\<in>set (map fst m). unat k < capacity"
    and "unat i < capacity"
    and "map_of m i = None"
  shows "length m < capacity"
proof -
  let ?K = "insert i (set (map fst m))"
  have notin: "i \<notin> set (map fst m)" using assms(4) by (simp add: map_of_eq_None_iff)
  have "card (set (map fst m)) = length (map fst m)"
    by (rule distinct_card [OF assms(1)])
  then have "card ?K = Suc (length m)"
    using notin by simp
  moreover have "unat ` ?K \<subseteq> {..<capacity}" using assms(2,3) by auto
  then have "card (unat ` ?K) \<le> capacity"
    by (metis card_lessThan card_mono finite_lessThan)
  moreover have "card (unat ` ?K) = card ?K"
    by (rule card_image) (simp add: inj_on_def word_unat_eq_iff)
  ultimately show ?thesis by simp
qed

text \<open>
  C3. When the poll of a clickable with network long click enabled returns \<open>LONG_CLICK\<close>
  while the link is connected, the same pass of the loop sends the record
  \<open>{p: 3, t: 1, i: id, c: 0}\<close>, records the pending entry with the current time and asks
  for the network-click timers to be checked, and changes no actuator and writes no pin.
  In any later state in which that entry is still pending and not older than
  \<open>LCNB_TIMEOUT_MS\<close>, the inbound \<open>NETWORK_CLICK_ACK\<close> for it sends
  \<open>{p: 3, t: 1, i: id, c: 1}\<close> and removes the entry, again with no actuator changed and
  no pin written. (The pending map has room for the entry: its keys are clickable
  indices and its capacity is the number of clickables.)
\<close>

theorem network_click_lifecycle:
  assumes "clickable_at s i = Inr c0"
    and "c_index c0 = i"
    and "isNetworkLongClickable c0"
    and "clickDetection (level (c_pinNumber c0)) (timeKeeper_now s) c0 = (LONG_CLICK, c)"
    and "isConnected cfg s"
    and "map_of (longClickedNetworkClickables s) i \<noteq> None
         \<or> length (longClickedNetworkClickables s) < unat (CONFIG_MAX_CLICKABLES cfg)"
  shows "\<exists>s1. pollClickable cfg level i flags s = Inr (flags\<lparr>mustCheckNetworkClicks := True\<rparr>, s1)
      \<and> serial s1 = serial s @ [network_click_record 1 (c_id c0) 0]
      \<and> map_of (longClickedNetworkClickables s1) i = Some (timeKeeper_now s)
      \<and> actuators s1 = actuators s \<and> pins s1 = pins s
      \<and> (\<forall>s2 doc c2.
            doc_p doc = NETWORK_CLICK_ACK \<and> doc_t doc = 1 \<and> doc_i doc = c_id c0
            \<and> map_of (clickablesMap s2) (c_id c0) = Some i
            \<and> clickable_at s2 i = Inr c2 \<and> c_id c2 = c_id c0
            \<and> map_of (longClickedNetworkClickables s2) i = Some (timeKeeper_now s)
            \<and> \<not> timeKeeper_now s2 - timeKeeper_now s > ucast (LCNB_TIMEOUT_MS cfg)
          \<longrightarrow> (\<exists>r s3. deserializeAndDispatch cfg doc s2 = Inr (r, s3)
                 \<and> serial s3 = serial s2 @ [network_click_record 1 (c_id c0) 1]
                 \<and> map_of (longClickedNetworkClickables s3) i = None
                 \<and> actuators s3 = actuators s2 \<and> pins s3 = pins s2))"
proof -
  let ?s1 = "(sendJson (network_click_record 1 (c_id c0) 0)
             (s\<lparr>clickables := (clickables s)[unat i := Some c]\<rparr>))
            \<lparr>longClickedNetworkClickables :=
               map_assign i (timeKeeper_now s) (longClickedNetworkClickables s)\<rparr>"
  have poll: "pollClickable cfg level i flags s = Inr (flags\<lparr>mustCheckNetworkClicks := True\<rparr>, ?s1)"
    by (rule poll_LONG_CLICK_network [where level = level, OF assms])
  have f1: "serial ?s1 = serial s @ [network_click_record 1 (c_id c0) 0]"
    "map_of (longClickedNetworkClickables ?s1) i = Some (timeKeeper_now s)"
    "actuators ?s1 = actuators s" "pins ?s1 = pins s"
    by (simp_all add: sendJson_def updateLastSentTime_def map_of_map_assign)
  have ack: "\<exists>r s3. deserializeAndDispatch cfg doc s2 = Inr (r, s3)
                 \<and> serial s3 = serial s2 @ [network_click_record 1 (c_id c0) 1]
                 \<and> map_of (longClickedNetworkClickables s3) i = None
                 \<and> actuators s3 = actuators s2 \<and> pins s3 = pins s2"
    if h: "doc_p doc = NETWORK_CLICK_ACK \<and> doc_t doc = 1 \<and> doc_i doc = c_id c0
            \<and> map_of (clickablesMap s2) (c_id c0) = Some i
            \<and> clickable_at s2 i = Inr c2 \<and> c_id c2 = c_id c0
            \<and> map_of (longClickedNetworkClickables s2) i = Some (timeKeeper_now s)
            \<and> \<not> timeKeeper_now s2 - timeKeeper_now s > ucast (LCNB_TIMEOUT_MS cfg)"
    for s2 doc c2
  proof -
    let ?j = "network_click_record (wire_click_type LONG) (c_id c2) 1"
    let ?s3 = "eraseNetworkClick i LONG (sendJson ?j s2)"
    have d: "deserializeAndDispatch cfg doc s2 =
       Inr (\<lparr>stateChanged = thereAreActiveNetworkCLicks ?s3,
              networkClickHandled = thereAreActiveNetworkCLicks ?s3\<rparr>, ?s3)"
      using ack_dispatch [of doc LONG s2 i c2 "timeKeeper_now s" cfg] h
      by (simp add: Let_def wire_click_type_def pending_map_def)
    have p: "longClickedNetworkClickables (eraseNetworkClick i LONG (sendJson j s2))
               = map_erase i (longClickedNetworkClickables s2)" for j
      using erase_sendJson_pending [of LONG i LONG j s2] by (simp add: pending_map_def)
    show ?thesis
      using d h erase_sendJson_fields [of i LONG ?j s2]
      by (intro exI [of _ "\<lparr>stateChanged = thereAreActiveNetworkCLicks ?s3,
              networkClickHandled = thereAreActiveNetworkCLicks ?s3\<rparr>"] exI [of _ ?s3])
        (simp add: p map_of_map_erase wire_click_type_def)
  qed
  from poll f1 ack show ?thesis by blast
qed


theorem network_click_lifecycle_witness:
  "\<exists>s1. pollClickable default_config (\<lambda>pin. True) 0
           \<lparr>mustSendState = False, mustCheckNetworkClicks = False\<rparr> pressing_system
         = Inr (\<lparr>mustSendState = False, mustCheckNetworkClicks = True\<rparr>, s1)
      \<and> serial s1 = [network_click_record 1 1 0]
      \<and> longClickedNetworkClickables s1 = [(0, 5000)]
      \<and> actuators s1 = actuators pressing_system \<and> pins s1 = []
      \<and> (\<exists>r s3. deserializeAndDispatch default_config
                     \<lparr>doc_p = 14, doc_i = 1, doc_t = 1, doc_s = S_Null\<rparr>
                     (s1\<lparr>timeKeeper_now := 5200\<rparr>) = Inr (r, s3)
             \<and> serial s3 = [network_click_record 1 1 0, network_click_record 1 1 1]
             \<and> map_of (longClickedNetworkClickables s3) 0 = None
             \<and> actuators s3 = actuators pressing_system \<and> pins s3 = [])"
proof -
  let ?flags = "\<lparr>mustSendState = False, mustCheckNetworkClicks = False\<rparr>"
  let ?held = "network_button\<lparr>currentState := PRESSED, stateChangeTime := 4500\<rparr>"
  let ?fired = "?held\<lparr>lastActionFired := AF_LONG\<rparr>"
  let ?doc = "\<lparr>doc_p = 14, doc_i = 1, doc_t = 1, doc_s = S_Null\<rparr>"
  have nb: "c_index network_button = 0" "c_id network_button = 1" "isNetworkLongClickable network_button"
    "isLongClickable network_button" "\<not> isSuperLongClickable network_button"
    "longClick_ms network_button = 400" "lastActionFired network_button = AF_NONE"
    by (simp_all add: network_button_def check_def setClickableLong_def new_Clickable_def)
  have 1: "clickable_at pressing_system 0 = Inr ?held"
    by (simp add: pressing_system_def example_system_def clickable_at_def)
  have 2: "c_index ?held = 0" and 3: "isNetworkLongClickable ?held" by (simp_all add: nb)
  have 4: "clickDetection ((\<lambda>pin. True) (c_pinNumber ?held)) (timeKeeper_now pressing_system) ?held
             = (LONG_CLICK, ?fired)"
    by (simp add: held_step nb pressing_system_def example_system_def)
  have 5: "isConnected default_config pressing_system"
    by (simp add: isConnected_def pressing_system_def example_system_def default_config_def)
  have 6: "map_of (longClickedNetworkClickables pressing_system) 0 \<noteq> None
         \<or> length (longClickedNetworkClickables pressing_system)
             < unat (CONFIG_MAX_CLICKABLES default_config)"
    by (simp add: pressing_system_def example_system_def default_config_def)
  from network_click_lifecycle [where level = "\<lambda>pin. True" and flags = ?flags, OF 1 2 3 4 5 6]
  obtain s1 where
    poll: "pollClickable default_config (\<lambda>pin. True) 0 ?flags pressing_system
             = Inr (?flags\<lparr>mustCheckNetworkClicks := True\<rparr>, s1)"
    and ser: "serial s1 = serial pressing_system @ [network_click_record 1 (c_id ?held) 0]"
    and act: "actuators s1 = actuators pressing_system" "pins s1 = pins pressing_system"
    and ack: "\<And>s2 doc c2.
            doc_p doc = NETWORK_CLICK_ACK \<and> doc_t doc = 1 \<and> doc_i doc = c_id ?held
            \<and> map_of (clickablesMap s2) (c_id ?held) = Some 0
            \<and> clickable_at s2 0 = Inr c2 \<and> c_id c2 = c_id ?held
            \<and> map_of (longClickedNetworkClickables s2) 0 = Some (timeKeeper_now pressing_system)
            \<and> \<not> timeKeeper_now s2 - timeKeeper_now pressing_system
                   > ucast (LCNB_TIMEOUT_MS default_config)
          \<Longrightarrow> (\<exists>r s3. deserializeAndDispatch default_config doc s2 = Inr (r, s3)
                 \<and> serial s3 = serial s2 @ [network_click_record 1 (c_id ?held) 1]
                 \<and> map_of (longClickedNetworkClickables s3) 0 = None
                 \<and> actuators s3 = actuators s2 \<and> pins s3 = pins s2)"
    by blast
  have exact: "pollClickable default_config (\<lambda>pin. True) 0 ?flags pressing_system =
     Inr (?flags\<lparr>mustCheckNetworkClicks := True\<rparr>,
          (sendJson (network_click_record 1 (c_id ?held) 0)
             (pressing_system\<lparr>clickables := (clickables pressing_system)[unat (0 :: u8) := Some ?fired]\<rparr>))
            \<lparr>longClickedNetworkClickables :=
               map_assign 0 (timeKeeper_now pressing_system)
                 (longClickedNetworkClickables pressing_system)\<rparr>)"
    by (rule poll_LONG_CLICK_network [where level = "\<lambda>pin. True", OF 1 2 3 4 5 6])
  from poll exact have s1: "s1 =
          (sendJson (network_click_record 1 (c_id ?held) 0)
             (pressing_system\<lparr>clickables := (clickables pressing_system)[unat (0 :: u8) := Some ?fired]\<rparr>))
            \<lparr>longClickedNetworkClickables :=
               map_assign 0 (timeKeeper_now pressing_system)
                 (longClickedNetworkClickables pressing_system)\<rparr>"
    by simp
  have m: "longClickedNetworkClickables s1 = [(0, 5000)]"
    and cm: "clickablesMap s1 = [(1, 0), (2, 1)]"
    and cs: "clickable_at s1 0 = Inr ?fired"
    unfolding s1
    by (simp_all add: sendJson_def updateLastSentTime_def pressing_system_def example_system_def
        clickable_at_def)
  have pre: "doc_p ?doc = NETWORK_CLICK_ACK \<and> doc_t ?doc = 1 \<and> doc_i ?doc = c_id ?held
            \<and> map_of (clickablesMap (s1\<lparr>timeKeeper_now := 5200\<rparr>)) (c_id ?held) = Some 0
            \<and> clickable_at (s1\<lparr>timeKeeper_now := 5200\<rparr>) 0 = Inr ?fired \<and> c_id ?fired = c_id ?held
            \<and> map_of (longClickedNetworkClickables (s1\<lparr>timeKeeper_now := 5200\<rparr>)) 0
                = Some (timeKeeper_now pressing_system)
            \<and> \<not> timeKeeper_now (s1\<lparr>timeKeeper_now := 5200\<rparr>) - timeKeeper_now pressing_system
                   > ucast (LCNB_TIMEOUT_MS default_config)"
    using cs
    by (simp add: NETWORK_CLICK_ACK_def nb m cm clickable_at_Inr_iff pressing_system_def
        example_system_def default_config_def)
  from ack [OF pre] obtain r s3 where
    d: "deserializeAndDispatch default_config ?doc (s1\<lparr>timeKeeper_now := 5200\<rparr>) = Inr (r, s3)"
    and ser3: "serial s3 = serial (s1\<lparr>timeKeeper_now := 5200\<rparr>) @ [network_click_record 1 (c_id ?held) 1]"
    and gone: "map_of (longClickedNetworkClickables s3) 0 = None"
    and act3: "actuators s3 = actuators (s1\<lparr>timeKeeper_now := 5200\<rparr>)"
      "pins s3 = pins (s1\<lparr>timeKeeper_now := 5200\<rparr>)"
    by blast
  have e: "serial pressing_system = []" "pins pressing_system = []"
    by (simp_all add: pressing_system_def example_system_def)
  have "\<exists>r s3. deserializeAndDispatch default_config ?doc (s1\<lparr>timeKeeper_now := 5200\<rparr>) = Inr (r, s3)
             \<and> serial s3 = [network_click_record 1 1 0, network_click_record 1 1 1]
             \<and> map_of (longClickedNetworkClickables s3) 0 = None
             \<and> actuators s3 = actuators pressing_system \<and> pins s3 = []"
    using d ser3 gone act3 ser act e
    by (intro exI [of _ r] exI [of _ s3]) (simp add: nb)
  with poll ser act m e show ?thesis
    by (intro exI [of _ s1]) (simp add: nb)
qed

section \<open>Properties of the actions on the actuators\<close>

subsection \<open>Calls through the registry\<close>

lemma call_actuator_Inr:
  assumes "actuator_at s i = Inr a"
  shows "call_actuator i m s =
     Inr (fst (m a (pins s)),
          s\<lparr>actuators := (actuators s)[unat i := Some (fst (snd (m a (pins s))))],
            pins := snd (snd (m a (pins s)))\<rparr>)"
  using assms by (simp add: call_actuator_def split: prod.splits)

lemma count_actuatorsLongOn_eq:
  assumes "\<forall>i\<in>set xs. \<exists>a. actuator_at s i = Inr a"
  shows "count_actuatorsLongOn xs acc s = Inr (acc + of_nat (length (filter (is_on s) xs)))"
  using assms
proof (induction xs arbitrary: acc)
  case Nil
  then show ?case by simp
next
  case (Cons i xs)
  then obtain a where a: "actuator_at s i = Inr a" by auto
  with Cons show ?case by (simp add: is_on_def add.assoc)
qed

lemma uint_of_nat_u8:
  assumes "n \<le> unat (cap :: u8)"
  shows "uint (of_nat n :: u8) = int n"
proof -
  have "unat cap < 2 ^ LENGTH(8)" by (rule unsigned_less)
  with assms have "n < 2 ^ 8" by simp
  then have "unat (of_nat n :: u8) = n" by (simp add: unat_of_nat)
  then show ?thesis by (simp add: uint_nat)
qed


subsection \<open>The long click\<close>

lemma set_first_occurrences: "set (first_occurrences xs) = set xs"
  by (induction xs rule: first_occurrences.induct) auto

lemma call_setState_step:
  assumes "unat i < length (actuators s)" "actuators s ! unat i = Some a"
  shows "call_actuator i (setState cfg (timeKeeper_now s) target) s =
     Inr (would_switch cfg target s (unat i),
          if would_switch cfg target s (unat i)
          then s\<lparr>actuators := (actuators s)[unat i := Some (switched_to target (timeKeeper_now s) a)],
                 pins := pins s @ [(a_pinNumber a, target)]\<rparr>
          else s)"
proof -
  have at: "actuator_at s i = Inr a" using assms by (simp add: actuator_at_Inr_iff)
  have same: "(actuators s)[unat i := Some a] = actuators s"
    using assms by (simp add: list_update_same_conv)
  show ?thesis
  proof (cases "would_switch cfg target s (unat i)")
    case True
    then have "setState cfg (timeKeeper_now s) target a (pins s) =
        (True, switched_to target (timeKeeper_now s) a, pins s @ [(a_pinNumber a, target)])"
      using assms(2) by (auto simp: would_switch_def setState_def switched_to_def digitalWrite_def)
    with True at show ?thesis by (simp add: call_actuator_def)
  next
    case False
    then have "setState cfg (timeKeeper_now s) target a (pins s) = (False, a, pins s)"
      using assms(2) by (auto simp: would_switch_def setState_def)
    with False at same show ?thesis by (simp add: call_actuator_def)
  qed
qed


lemma slots_after_cong:
  assumes "length (actuators s1) = length (actuators s)"
    and "timeKeeper_now s1 = timeKeeper_now s"
    and "\<And>j. j < length (actuators s) \<Longrightarrow>
           (if j \<in> ks1 \<and> would_switch cfg target s1 j
            then map_option (switched_to target (timeKeeper_now s)) (actuators s1 ! j)
            else actuators s1 ! j)
         = (if j \<in> ks \<and> would_switch cfg target s j
            then map_option (switched_to target (timeKeeper_now s)) (actuators s ! j)
            else actuators s ! j)"
  shows "slots_after cfg target s1 ks1 = slots_after cfg target s ks"
  unfolding slots_after_def assms(1,2)
  by (rule map_cong [OF refl]) (simp add: assms(3))

lemma or_each_setState_effect:
  assumes "\<forall>i\<in>set xs. unat i < length (actuators s) \<and> (\<exists>a. actuators s ! unat i = Some a)"
  shows "or_each (\<lambda>i s1. call_actuator i (setState cfg (timeKeeper_now s1) target) s1) xs any s =
     Inr (any \<or> (\<exists>k\<in>set (map unat xs). would_switch cfg target s k),
          s\<lparr>actuators := slots_after cfg target s (set (map unat xs)),
            pins := pins s @ writes_of cfg target s (map unat xs)\<rparr>)"
  using assms
proof (induction xs arbitrary: any s)
  case Nil
  have "slots_after cfg target s {} = actuators s"
    by (simp add: slots_after_def map_nth)
  then show ?case by (simp add: writes_of_def)
next
  case (Cons i xs)
  let ?f = "\<lambda>i s1. call_actuator i (setState cfg (timeKeeper_now s1) target) s1"
  let ?k = "unat i"
  let ?ks = "map unat xs"
  from Cons.prems obtain a where len: "?k < length (actuators s)" and a: "actuators s ! ?k = Some a"
    by auto
  note step = call_setState_step [OF len a, of cfg target]
  show ?case
  proof (cases "would_switch cfg target s ?k")
    case True
    let ?a1 = "switched_to target (timeKeeper_now s) a"
    let ?s1 = "s\<lparr>actuators := (actuators s)[?k := Some ?a1], pins := pins s @ [(a_pinNumber a, target)]\<rparr>"
    have st: "?f i s = Inr (True, ?s1)" using step True by simp
    have w1: "would_switch cfg target ?s1 j = (j \<noteq> ?k \<and> would_switch cfg target s j)" for j
    proof (cases "j = ?k")
      case True
      then show ?thesis using len by (simp add: would_switch_def switched_to_def)
    next
      case False
      then show ?thesis by (simp add: would_switch_def split: option.splits)
    qed
    have valid1: "\<forall>j\<in>set xs. unat j < length (actuators ?s1) \<and> (\<exists>b. actuators ?s1 ! unat j = Some b)"
    proof
      fix j assume "j \<in> set xs"
      with Cons.prems have "unat j < length (actuators s)" "\<exists>b. actuators s ! unat j = Some b"
        by auto
      then show "unat j < length (actuators ?s1) \<and> (\<exists>b. actuators ?s1 ! unat j = Some b)"
        by (cases "unat j = ?k") simp_all
    qed
    have slots: "slots_after cfg target ?s1 (set ?ks) = slots_after cfg target s (set (map unat (i # xs)))"
    proof (rule slots_after_cong)
      fix j assume j: "j < length (actuators s)"
      show "(if j \<in> set ?ks \<and> would_switch cfg target ?s1 j
            then map_option (switched_to target (timeKeeper_now s)) (actuators ?s1 ! j)
            else actuators ?s1 ! j)
         = (if j \<in> set (map unat (i # xs)) \<and> would_switch cfg target s j
            then map_option (switched_to target (timeKeeper_now s)) (actuators s ! j)
            else actuators s ! j)"
      proof (cases "j = ?k")
        case True
        with len a \<open>would_switch cfg target s ?k\<close> show ?thesis by (simp add: w1)
      next
        case False
        then show ?thesis by (simp add: w1)
      qed
    qed simp_all
    have filt: "filter (would_switch cfg target ?s1) ?ks
                  = filter (\<lambda>y. y \<noteq> ?k) (filter (would_switch cfg target s) ?ks)"
      by (simp add: w1 [abs_def] conj_commute)
    have nk: "?k \<notin> set (first_occurrences (filter (\<lambda>y. y \<noteq> ?k) (filter (would_switch cfg target s) ?ks)))"
      by (simp add: set_first_occurrences)
    have writes: "[(a_pinNumber a, target)] @ writes_of cfg target ?s1 ?ks
                    = writes_of cfg target s (map unat (i # xs))"
    proof -
      have pin_eq: "map (\<lambda>k. (a_pinNumber (the (actuators ?s1 ! k)), target)) zs
                      = map (\<lambda>k. (a_pinNumber (the (actuators s ! k)), target)) zs"
        if "?k \<notin> set zs" for zs
      proof (rule map_cong [OF refl])
        fix x assume "x \<in> set zs"
        with that have "x \<noteq> ?k" by auto
        then show "(a_pinNumber (the (actuators ?s1 ! x)), target)
                     = (a_pinNumber (the (actuators s ! x)), target)"
          by simp
      qed
      show ?thesis
        unfolding writes_of_def filt pin_eq [OF nk]
        using True a by simp
    qed
    have "or_each ?f (i # xs) any s = or_each ?f xs (any \<or> True) ?s1"
      using st by simp
    also have "\<dots> = Inr (any \<or> True \<or> (\<exists>k\<in>set ?ks. would_switch cfg target ?s1 k),
          ?s1\<lparr>actuators := slots_after cfg target ?s1 (set ?ks),
            pins := pins ?s1 @ writes_of cfg target ?s1 ?ks\<rparr>)"
      using Cons.IH [OF valid1, of "any \<or> True"] by simp
    also have "\<dots> = Inr (any \<or> (\<exists>k\<in>set (map unat (i # xs)). would_switch cfg target s k),
          s\<lparr>actuators := slots_after cfg target s (set (map unat (i # xs))),
            pins := pins s @ writes_of cfg target s (map unat (i # xs))\<rparr>)"
      using True slots writes by simp
    finally show ?thesis .
  next
    case False
    have st: "?f i s = Inr (False, s)" using step False by simp
    have valid1: "\<forall>j\<in>set xs. unat j < length (actuators s) \<and> (\<exists>b. actuators s ! unat j = Some b)"
      using Cons.prems by simp
    have slots: "slots_after cfg target s (set ?ks) = slots_after cfg target s (set (map unat (i # xs)))"
      by (rule slots_after_cong) (use False in auto)
    have writes: "writes_of cfg target s ?ks = writes_of cfg target s (map unat (i # xs))"
      using False by (simp add: writes_of_def)
    have "or_each ?f (i # xs) any s = or_each ?f xs (any \<or> False) s"
      using st by simp
    also have "\<dots> = Inr (any \<or> False \<or> (\<exists>k\<in>set ?ks. would_switch cfg target s k),
          s\<lparr>actuators := slots_after cfg target s (set ?ks),
            pins := pins s @ writes_of cfg target s ?ks\<rparr>)"
      using Cons.IH [OF valid1, of "any \<or> False"] by simp
    also have "\<dots> = Inr (any \<or> (\<exists>k\<in>set (map unat (i # xs)). would_switch cfg target s k),
          s\<lparr>actuators := slots_after cfg target s (set (map unat (i # xs))),
            pins := pins s @ writes_of cfg target s (map unat (i # xs))\<rparr>)"
      using False slots writes by simp
    finally show ?thesis .
  qed
qed


lemma length_slots_after: "length (slots_after cfg target s ks) = length (actuators s)"
  by (simp add: slots_after_def)

lemma slots_after_nth:
  "k < length (actuators s) \<Longrightarrow>
   slots_after cfg target s ks ! k =
     (if k \<in> ks \<and> would_switch cfg target s k
      then map_option (switched_to target (timeKeeper_now s)) (actuators s ! k)
      else actuators s ! k)"
  by (simp add: slots_after_def)

text \<open>
  C6. A long click on a long-clickable button chooses one target and asks every actuator
  of \<open>actuatorsLong\<close> for it. For \<open>NORMAL\<close> the target is true exactly when twice the
  number of actuators of the list that are on is strictly less than the length of the list
  (so a list half on gives false); for \<open>ON_ONLY\<close> it is true; for \<open>OFF_ONLY\<close> it is false.
  The effect is stated on the device itself. Every actuator of the list whose state
  differs from the target and whose last switch is at least the debounce time ago ends
  with \<open>actualState\<close> equal to the target and \<open>lastTimeSwitched\<close> equal to the current time,
  and its pin is written once with the target, in the order of the list; every other
  actuator, in the list or not, is left as it was, and nothing else of the device
  changes. The result is true exactly when some actuator of the list is switched, which
  is the OR of the results of \<open>setState\<close> on the actuators of the list. The indices of
  the list are those of registered actuators, and the list fits its
  \<open>etl::vector<uint8_t, CONFIG_MAX_ACTUATORS>\<close>.
\<close>

theorem longClick_spec:
  assumes "isLongClickable c"
    and "longClickType c \<noteq> LCT_NONE"
    and "\<forall>i\<in>set (actuatorsLong c). \<exists>a. actuator_at s i = Inr a"
    and "length (actuatorsLong c) \<le> unat (CONFIG_MAX_ACTUATORS cfg)"
  shows "\<exists>target s1.
           (longClickType c = LCT_NORMAL \<longrightarrow>
              target = (2 * length (filter (is_on s) (actuatorsLong c)) < length (actuatorsLong c)))
         \<and> (longClickType c = ON_ONLY \<longrightarrow> target)
         \<and> (longClickType c = OFF_ONLY \<longrightarrow> \<not> target)
         \<and> longClick cfg c s =
             Inr (\<exists>i\<in>set (actuatorsLong c). would_switch cfg target s (unat i), s1)
         \<and> s1 = s\<lparr>actuators := slots_after cfg target s (unat ` set (actuatorsLong c)),
                   pins := pins s @ writes_of cfg target s (map unat (actuatorsLong c))\<rparr>
         \<and> (\<forall>i\<in>set (actuatorsLong c). \<exists>a a1.
               actuator_at s i = Inr a \<and> actuator_at s1 i = Inr a1
             \<and> would_switch cfg target s (unat i)
                 = fst (setState cfg (timeKeeper_now s) target a (pins s))
             \<and> (if actualState a = target then a1 = a
                 else if timeKeeper_now s - lastTimeSwitched a < ucast (ACTUATOR_DEBOUNCE_TIME_MS cfg)
                 then a1 = a
                 else a1 = a\<lparr>actualState := target, lastTimeSwitched := timeKeeper_now s\<rparr>))"
proof -
  let ?xs = "actuatorsLong c"
  let ?n = "length (filter (is_on s) ?xs)"
  define target where "target =
     (case longClickType c of
        LCT_NORMAL \<Rightarrow> 2 * ?n < length ?xs
      | ON_ONLY \<Rightarrow> True
      | _ \<Rightarrow> False)"
  define s1 where "s1 = s\<lparr>actuators := slots_after cfg target s (unat ` set ?xs),
                           pins := pins s @ writes_of cfg target s (map unat ?xs)\<rparr>"
  have n_le: "?n \<le> unat (CONFIG_MAX_ACTUATORS cfg)"
    using assms(4) length_filter_le [of "is_on s" ?xs] by linarith
  have cnt: "count_actuatorsLongOn ?xs 0 s = Inr (of_nat ?n)"
    using count_actuatorsLongOn_eq [OF assms(3), of 0] by simp
  have cmp: "(2 * uint (of_nat ?n :: u8) < uint (getTotalActuators LONG c)) = (2 * ?n < length ?xs)"
  proof -
    have "(2 * int a < int b) = (2 * a < b)" for a b :: nat by linarith
    then show ?thesis
      using uint_of_nat_u8 [OF n_le] uint_of_nat_u8 [OF assms(4)] by simp
  qed
  have lc: "longClick cfg c s =
      or_each (\<lambda>i s1. call_actuator i (setState cfg (timeKeeper_now s1) target) s1) ?xs False s"
    using assms(1,2) cnt cmp
    by (cases "longClickType c") (simp_all add: longClick_def target_def)
  have valid: "\<forall>i\<in>set ?xs. unat i < length (actuators s) \<and> (\<exists>a. actuators s ! unat i = Some a)"
    using assms(3) by (auto simp: actuator_at_Inr_iff)
  have res: "longClick cfg c s = Inr (\<exists>i\<in>set ?xs. would_switch cfg target s (unat i), s1)"
    unfolding lc or_each_setState_effect [OF valid] s1_def by simp
  have t: "(longClickType c = LCT_NORMAL \<longrightarrow> target = (2 * ?n < length ?xs))
         \<and> (longClickType c = ON_ONLY \<longrightarrow> target)
         \<and> (longClickType c = OFF_ONLY \<longrightarrow> \<not> target)"
    by (simp add: target_def)
  have each: "\<forall>i\<in>set ?xs. \<exists>a a1.
               actuator_at s i = Inr a \<and> actuator_at s1 i = Inr a1
             \<and> would_switch cfg target s (unat i)
                 = fst (setState cfg (timeKeeper_now s) target a (pins s))
             \<and> (if actualState a = target then a1 = a
                 else if timeKeeper_now s - lastTimeSwitched a < ucast (ACTUATOR_DEBOUNCE_TIME_MS cfg)
                 then a1 = a
                 else a1 = a\<lparr>actualState := target, lastTimeSwitched := timeKeeper_now s\<rparr>)"
  proof
    fix i assume i: "i \<in> set ?xs"
    with valid obtain a where len: "unat i < length (actuators s)"
      and a: "actuators s ! unat i = Some a" by auto
    have at: "actuator_at s i = Inr a" using len a by (simp add: actuator_at_Inr_iff)
    have w: "would_switch cfg target s (unat i)
               = (actualState a \<noteq> target
                  \<and> \<not> timeKeeper_now s - lastTimeSwitched a < ucast (ACTUATOR_DEBOUNCE_TIME_MS cfg))"
      using a by (simp add: would_switch_def)
    have ws: "would_switch cfg target s (unat i)
               = fst (setState cfg (timeKeeper_now s) target a (pins s))"
      unfolding w by (simp add: setState_def)
    define a1 where "a1 = (if would_switch cfg target s (unat i)
                           then switched_to target (timeKeeper_now s) a else a)"
    have "slots_after cfg target s (unat ` set ?xs) ! unat i = Some a1"
      using i len a by (simp add: slots_after_nth a1_def)
    then have at1: "actuator_at s1 i = Inr a1"
      using len by (simp add: actuator_at_Inr_iff s1_def length_slots_after)
    have eff: "(if actualState a = target then a1 = a
                 else if timeKeeper_now s - lastTimeSwitched a < ucast (ACTUATOR_DEBOUNCE_TIME_MS cfg)
                 then a1 = a
                 else a1 = a\<lparr>actualState := target, lastTimeSwitched := timeKeeper_now s\<rparr>)"
      unfolding a1_def w by (simp add: switched_to_def)
    from at at1 ws eff show "\<exists>a a1.
               actuator_at s i = Inr a \<and> actuator_at s1 i = Inr a1
             \<and> would_switch cfg target s (unat i)
                 = fst (setState cfg (timeKeeper_now s) target a (pins s))
             \<and> (if actualState a = target then a1 = a
                 else if timeKeeper_now s - lastTimeSwitched a < ucast (ACTUATOR_DEBOUNCE_TIME_MS cfg)
                 then a1 = a
                 else a1 = a\<lparr>actualState := target, lastTimeSwitched := timeKeeper_now s\<rparr>)"
      by blast
  qed
  from t res each show ?thesis
    unfolding s1_def by blast
qed

theorem longClick_spec_witness:
  "longClick default_config two_relay_button example_system =
     Inr (True,
          example_system
            \<lparr>actuators :=
               [Some ((new_Actuator 7 1 False)\<lparr>actualState := True, lastTimeSwitched := 5000\<rparr>),
                Some ((new_Actuator 8 2 False)
                        \<lparr>a_index := 1, actualState := True, lastTimeSwitched := 5000\<rparr>)],
             pins := [(7, True), (8, True)]\<rparr>)
   \<and> longClick default_config two_relay_button long_timer_system =
     Inr (True,
          long_timer_system
            \<lparr>actuators :=
               [Some (long_timer_relay\<lparr>actualState := False, lastTimeSwitched := 700000\<rparr>),
                Some ((new_Actuator 8 2 False)\<lparr>a_index := 1\<rparr>)],
             pins := [(7, False)]\<rparr>)
   \<and> longClick default_config two_relay_button short_timer_system = Inr (False, short_timer_system)"
proof -
  have b: "isLongClickable two_relay_button" "longClickType two_relay_button = LCT_NORMAL"
    "actuatorsLong two_relay_button = [0, 1]"
    by (simp_all add: two_relay_button_def check_def setClickableLong_def new_Clickable_def)
  have ne: "longClickType two_relay_button \<noteq> LCT_NONE" by (simp add: b)
  have cap: "length (actuatorsLong two_relay_button) \<le> unat (CONFIG_MAX_ACTUATORS default_config)"
    by (simp add: b default_config_def)
  have v1: "\<forall>i\<in>set (actuatorsLong two_relay_button). \<exists>a. actuator_at example_system i = Inr a"
    by (simp add: b actuator_at_def example_system_def)
  have v2: "\<forall>i\<in>set (actuatorsLong two_relay_button). \<exists>a. actuator_at long_timer_system i = Inr a"
    by (simp add: b actuator_at_def long_timer_system_def example_system_def)
  have v3: "\<forall>i\<in>set (actuatorsLong two_relay_button). \<exists>a. actuator_at short_timer_system i = Inr a"
    by (simp add: b actuator_at_def short_timer_system_def example_system_def)
  have on1: "filter (is_on example_system) [0, 1] = []"
    by (simp add: is_on_def actuator_at_def example_system_def new_Actuator_def)
  have on2: "filter (is_on long_timer_system) [0, 1] = [0]"
    by (simp add: is_on_def actuator_at_def long_timer_system_def example_system_def
        new_Actuator_def long_timer_relay_def setAutoOffTimer_def)
  have on3: "filter (is_on short_timer_system) [0, 1] = [0]"
    by (simp add: is_on_def actuator_at_def short_timer_system_def example_system_def
        new_Actuator_def short_timer_relay_def setAutoOffTimer_def)

  from longClick_spec [OF b(1) ne v1 cap] obtain target s1 where
    t1: "longClickType two_relay_button = LCT_NORMAL \<longrightarrow>
           target = (2 * length (filter (is_on example_system) (actuatorsLong two_relay_button))
                       < length (actuatorsLong two_relay_button))"
    and r1: "longClick default_config two_relay_button example_system =
        Inr (\<exists>i\<in>set (actuatorsLong two_relay_button). would_switch default_config target example_system (unat i), s1)"
    and s1: "s1 = example_system\<lparr>actuators := slots_after default_config target example_system (unat ` set (actuatorsLong two_relay_button)),
               pins := pins example_system @ writes_of default_config target example_system (map unat (actuatorsLong two_relay_button))\<rparr>"
    apply (elim exE conjE)
    apply (rule that)
      apply assumption+
    done
  from t1 have tv: "target = True" unfolding b on1 by simp
  have res1: "longClick default_config two_relay_button example_system = Inr (True,
          example_system
            \<lparr>actuators :=
               [Some ((new_Actuator 7 1 False)\<lparr>actualState := True, lastTimeSwitched := 5000\<rparr>),
                Some ((new_Actuator 8 2 False)
                        \<lparr>a_index := 1, actualState := True, lastTimeSwitched := 5000\<rparr>)],
             pins := [(7, True), (8, True)]\<rparr>)"
    unfolding r1 s1 tv b
    by (simp add: would_switch_def slots_after_def writes_of_def switched_to_def
         example_system_def new_Actuator_def default_config_def)

  from longClick_spec [OF b(1) ne v2 cap] obtain target s1 where
    t2: "longClickType two_relay_button = LCT_NORMAL \<longrightarrow>
           target = (2 * length (filter (is_on long_timer_system) (actuatorsLong two_relay_button))
                       < length (actuatorsLong two_relay_button))"
    and r2: "longClick default_config two_relay_button long_timer_system =
        Inr (\<exists>i\<in>set (actuatorsLong two_relay_button). would_switch default_config target long_timer_system (unat i), s1)"
    and s2: "s1 = long_timer_system\<lparr>actuators := slots_after default_config target long_timer_system (unat ` set (actuatorsLong two_relay_button)),
               pins := pins long_timer_system @ writes_of default_config target long_timer_system (map unat (actuatorsLong two_relay_button))\<rparr>"
    apply (elim exE conjE)
    apply (rule that)
      apply assumption+
    done
  from t2 have tv: "target = False" unfolding b on2 by simp
  have res2: "longClick default_config two_relay_button long_timer_system = Inr (True,
          long_timer_system
            \<lparr>actuators :=
               [Some (long_timer_relay\<lparr>actualState := False, lastTimeSwitched := 700000\<rparr>),
                Some ((new_Actuator 8 2 False)\<lparr>a_index := 1\<rparr>)],
             pins := [(7, False)]\<rparr>)"
    unfolding r2 s2 tv b
    by (simp add: would_switch_def slots_after_def writes_of_def switched_to_def
        long_timer_system_def long_timer_relay_def setAutoOffTimer_def example_system_def new_Actuator_def default_config_def)

  from longClick_spec [OF b(1) ne v3 cap] obtain target s1 where
    t3: "longClickType two_relay_button = LCT_NORMAL \<longrightarrow>
           target = (2 * length (filter (is_on short_timer_system) (actuatorsLong two_relay_button))
                       < length (actuatorsLong two_relay_button))"
    and r3: "longClick default_config two_relay_button short_timer_system =
        Inr (\<exists>i\<in>set (actuatorsLong two_relay_button). would_switch default_config target short_timer_system (unat i), s1)"
    and s3: "s1 = short_timer_system\<lparr>actuators := slots_after default_config target short_timer_system (unat ` set (actuatorsLong two_relay_button)),
               pins := pins short_timer_system @ writes_of default_config target short_timer_system (map unat (actuatorsLong two_relay_button))\<rparr>"
    apply (elim exE conjE)
    apply (rule that)
      apply assumption+
    done
  from t3 have tv: "target = False" unfolding b on3 by simp
  have res3: "longClick default_config two_relay_button short_timer_system = Inr (False, short_timer_system)"
    unfolding r3 s3 tv b
    by (simp add: would_switch_def slots_after_def writes_of_def switched_to_def
        short_timer_system_def short_timer_relay_def setAutoOffTimer_def example_system_def new_Actuator_def default_config_def)
  from res1 res2 res3 show ?thesis by (intro conjI)
qed

subsection \<open>The auto-off sweep\<close>

lemma actuator_at_after:
  assumes "actuators s1 = (actuators s)[unat i := Some a]" "unat i < length (actuators s)"
  shows "actuator_at s1 j = (if j = i then Inr a else actuator_at s j)"
  using assms by (auto simp: actuator_at_def word_unat_eq_iff)

lemma checkAutoOffTimer_off:
  "\<not> actualState a \<Longrightarrow> checkAutoOffTimer cfg t a hw = (False, a, hw)"
  by (simp add: checkAutoOffTimer_def)

lemma checkAutoOffTimer_due:
  assumes "actualState a" "hasAutoOffTimer a"
    and "autoOffTimer_ms a \<le> t - lastTimeSwitched a"
    and "\<not> t - lastTimeSwitched a < ucast (ACTUATOR_DEBOUNCE_TIME_MS cfg)"
  shows "checkAutoOffTimer cfg t a hw =
           (True, a\<lparr>actualState := False, lastTimeSwitched := t\<rparr>, hw @ [(a_pinNumber a, False)])"
  using assms by (simp add: checkAutoOffTimer_def setState_def digitalWrite_def)

lemma sweep_switches_off:
  assumes valid: "\<forall>j\<in>set xs. \<exists>b. actuator_at s j = Inr b"
    and slot: "actuator_at s i = Inr a"
    and st: "(\<not> actualState a \<and> any)
          \<or> (i \<in> set xs \<and> actualState a \<and> hasAutoOffTimer a
              \<and> autoOffTimer_ms a \<le> timeKeeper_now s - lastTimeSwitched a
              \<and> \<not> timeKeeper_now s - lastTimeSwitched a < ucast (ACTUATOR_DEBOUNCE_TIME_MS cfg))"
  shows "\<exists>s1 a1. or_each (\<lambda>j s1. call_actuator j (checkAutoOffTimer cfg (timeKeeper_now s1)) s1)
                    xs any s = Inr (True, s1)
           \<and> actuator_at s1 i = Inr a1 \<and> \<not> actualState a1"
  using assms
proof (induction xs arbitrary: s a any)
  case Nil
  then show ?case by auto
next
  case (Cons j xs)
  let ?f = "\<lambda>j s1. call_actuator j (checkAutoOffTimer cfg (timeKeeper_now s1)) s1"
  from Cons.prems(1) obtain b where b: "actuator_at s j = Inr b" by auto
  then have len: "unat j < length (actuators s)" by (simp add: actuator_at_Inr_iff)
  let ?m = "checkAutoOffTimer cfg (timeKeeper_now s) b (pins s)"
  let ?s1 = "s\<lparr>actuators := (actuators s)[unat j := Some (fst (snd ?m))], pins := snd (snd ?m)\<rparr>"
  have step: "?f j s = Inr (fst ?m, ?s1)" by (rule call_actuator_Inr [OF b])
  have run: "or_each ?f (j # xs) any s = or_each ?f xs (any \<or> fst ?m) ?s1"
    using step by simp
  have at1: "actuator_at ?s1 k = (if k = j then Inr (fst (snd ?m)) else actuator_at s k)" for k
    by (rule actuator_at_after) (simp_all add: len)
  have valid1: "\<forall>k\<in>set xs. \<exists>b. actuator_at ?s1 k = Inr b"
    using Cons.prems(1) by (auto simp: at1)
  have now1: "timeKeeper_now ?s1 = timeKeeper_now s" by simp
  show ?case
  proof (cases "j = i")
    case True
    with b Cons.prems(2) have ba: "b = a" by simp
    from Cons.prems(3) show ?thesis
    proof
      assume off: "\<not> actualState a \<and> any"
      then have m: "?m = (False, a, pins s)" by (simp add: ba checkAutoOffTimer_off)
      have slot1: "actuator_at ?s1 i = Inr a"
        unfolding at1 using True m by simp
      have "(\<not> actualState a \<and> (any \<or> fst ?m))
          \<or> (i \<in> set xs \<and> actualState a \<and> hasAutoOffTimer a
              \<and> autoOffTimer_ms a \<le> timeKeeper_now ?s1 - lastTimeSwitched a
              \<and> \<not> timeKeeper_now ?s1 - lastTimeSwitched a < ucast (ACTUATOR_DEBOUNCE_TIME_MS cfg))"
        using off by simp
      from Cons.IH [OF valid1 slot1 this] show ?thesis unfolding run .
    next
      assume due: "i \<in> set (j # xs) \<and> actualState a \<and> hasAutoOffTimer a
              \<and> autoOffTimer_ms a \<le> timeKeeper_now s - lastTimeSwitched a
              \<and> \<not> timeKeeper_now s - lastTimeSwitched a < ucast (ACTUATOR_DEBOUNCE_TIME_MS cfg)"
      let ?a1 = "a\<lparr>actualState := False, lastTimeSwitched := timeKeeper_now s\<rparr>"
      have m: "?m = (True, ?a1, pins s @ [(a_pinNumber a, False)])"
        unfolding ba by (rule checkAutoOffTimer_due) (use due in simp_all)
      have slot1: "actuator_at ?s1 i = Inr ?a1"
        unfolding at1 using True m by simp
      have "(\<not> actualState ?a1 \<and> (any \<or> fst ?m))
          \<or> (i \<in> set xs \<and> actualState ?a1 \<and> hasAutoOffTimer ?a1
              \<and> autoOffTimer_ms ?a1 \<le> timeKeeper_now ?s1 - lastTimeSwitched ?a1
              \<and> \<not> timeKeeper_now ?s1 - lastTimeSwitched ?a1 < ucast (ACTUATOR_DEBOUNCE_TIME_MS cfg))"
        using m by simp
      from Cons.IH [OF valid1 slot1 this] show ?thesis unfolding run .
    qed
  next
    case False
    have slot1: "actuator_at ?s1 i = Inr a"
      unfolding at1 using False Cons.prems(2) by simp
    have "(\<not> actualState a \<and> (any \<or> fst ?m))
          \<or> (i \<in> set xs \<and> actualState a \<and> hasAutoOffTimer a
              \<and> autoOffTimer_ms a \<le> timeKeeper_now ?s1 - lastTimeSwitched a
              \<and> \<not> timeKeeper_now ?s1 - lastTimeSwitched a < ucast (ACTUATOR_DEBOUNCE_TIME_MS cfg))"
      using Cons.prems(3) False by auto
    from Cons.IH [OF valid1 slot1 this] show ?thesis unfolding run .
  qed
qed

text \<open>The precomputed subset: after \<open>Actuators::finalizeSetup\<close> the list holds exactly
  the indices of the registered actuators that have an auto-off timer.\<close>

lemma autoOffIndexes_mem:
  assumes "autoOffIndexes slots i acc = Inr idxs"
  shows "j \<in> set idxs \<longleftrightarrow>
           j \<in> set acc \<or> (\<exists>k<length slots. j = i + of_nat k
                              \<and> (\<exists>a. slots ! k = Some a \<and> hasAutoOffTimer a))"
  using assms
proof (induction slots arbitrary: i acc)
  case Nil
  then show ?case by simp
next
  case (Cons slot slots)
  then obtain a where a: "slot = Some a" by (cases slot) auto
  let ?acc = "if hasAutoOffTimer a then acc @ [i] else acc"
  from Cons.prems a have rec: "autoOffIndexes slots (i + 1) ?acc = Inr idxs" by simp
  have shift: "(\<exists>k<length (slot # slots). j = i + of_nat k
                  \<and> (\<exists>b. (slot # slots) ! k = Some b \<and> hasAutoOffTimer b))
     \<longleftrightarrow> (j = i \<and> hasAutoOffTimer a)
         \<or> (\<exists>k<length slots. j = i + 1 + of_nat k \<and> (\<exists>b. slots ! k = Some b \<and> hasAutoOffTimer b))"
    (is "?l \<longleftrightarrow> ?r")
  proof
    assume ?l
    then obtain k b where k: "k < Suc (length slots)" "j = i + of_nat k"
      "(slot # slots) ! k = Some b" "hasAutoOffTimer b" by auto
    show ?r
    proof (cases k)
      case 0
      with k a show ?thesis by simp
    next
      case (Suc k')
      with k have "k' < length slots" "j = i + 1 + of_nat k'" "slots ! k' = Some b"
        by (simp_all add: add.assoc)
      with k(4) show ?thesis by blast
    qed
  next
    assume ?r
    then show ?l
    proof
      assume "j = i \<and> hasAutoOffTimer a"
      then show ?l using a by (intro exI [of _ 0]) simp
    next
      assume "\<exists>k<length slots. j = i + 1 + of_nat k \<and> (\<exists>b. slots ! k = Some b \<and> hasAutoOffTimer b)"
      then obtain k b where "k < length slots" "j = i + 1 + of_nat k" "slots ! k = Some b"
        "hasAutoOffTimer b" by blast
      then show ?l by (intro exI [of _ "Suc k"]) (simp add: add.assoc)
    qed
  qed
  show ?case
    unfolding Cons.IH [OF rec] shift by auto
qed

lemma finalizeSetup_subset:
  assumes "actuatorsWithAutoOffIndexes s = []"
    and "Actuators_finalizeSetup s = Inr s1"
    and "length (actuators s) = unat (CONFIG_MAX_ACTUATORS cfg)"
  shows "actuators s1 = actuators s
       \<and> (j \<in> set (actuatorsWithAutoOffIndexes s1)
            \<longleftrightarrow> (\<exists>a. actuator_at s j = Inr a \<and> hasAutoOffTimer a))"
proof -
  from assms(1,2) obtain idxs where idxs: "autoOffIndexes (actuators s) 0 [] = Inr idxs"
    and s1: "s1 = s\<lparr>actuatorsWithAutoOffIndexes := idxs\<rparr>"
    by (auto simp: Actuators_finalizeSetup_def split: sum.splits if_splits)
  have bound: "length (actuators s) < 2 ^ LENGTH(8)"
    unfolding assms(3) by (rule unsigned_less)
  have "(\<exists>k<length (actuators s). j = of_nat k \<and> (\<exists>a. actuators s ! k = Some a \<and> hasAutoOffTimer a))
     \<longleftrightarrow> (\<exists>a. actuator_at s j = Inr a \<and> hasAutoOffTimer a)" (is "?l \<longleftrightarrow> ?r")
  proof
    assume ?l
    then obtain k a where k: "k < length (actuators s)" "j = of_nat k" "actuators s ! k = Some a"
      "hasAutoOffTimer a" by blast
    from k(1) bound have "unat (of_nat k :: u8) = k" by (simp add: unat_of_nat)
    with k show ?r by (auto simp: actuator_at_Inr_iff)
  next
    assume ?r
    then obtain a where "unat j < length (actuators s)" "actuators s ! unat j = Some a"
      "hasAutoOffTimer a" by (auto simp: actuator_at_Inr_iff)
    then show ?l by (intro exI [of _ "unat j"]) simp
  qed
  with autoOffIndexes_mem [OF idxs, of j] s1 show ?thesis by simp
qed

text \<open>
  C5 (as stated, refuted). A relay with an auto-off timer of 50 ms was switched on at
  4940 ms. At 5000 ms its timer has run out (60 ms have passed), but the sweep leaves it
  on and reports no change: \<open>checkAutoOffTimer\<close> switches off through \<open>setState\<close>, which
  refuses any switch within the debounce time (100 ms) of the last one.
\<close>

theorem auto_off_sweep_counterexample:
  "actuator_at short_timer_system 0 = Inr short_timer_relay
   \<and> 0 \<in> set (actuatorsWithAutoOffIndexes short_timer_system)
   \<and> 0 < autoOffTimer_ms short_timer_relay \<and> hasAutoOffTimer short_timer_relay
   \<and> actualState short_timer_relay
   \<and> autoOffTimer_ms short_timer_relay
        \<le> timeKeeper_now short_timer_system - lastTimeSwitched short_timer_relay
   \<and> actuatorsAutoOffTimersCheck default_config short_timer_system = Inr (False, short_timer_system)"
  by (simp add: short_timer_system_def example_system_def short_timer_relay_def
      setAutoOffTimer_def new_Actuator_def actuator_at_def actuatorsAutoOffTimersCheck_def
      call_actuator_def checkAutoOffTimer_def setState_def default_config_def)

text \<open>
  C5 (amended). For an actuator of the precomputed auto-off subset with
  \<open>auto_off_ms > 0\<close> whose state is true: once \<open>auto_off_ms\<close> milliseconds and at least
  the switch debounce time have elapsed since \<open>lastTimeSwitched\<close>, the next auto-off
  sweep returns true and leaves the actuator's state false. (The subset holds indices of
  registered actuators.)
\<close>

theorem auto_off_sweep:
  assumes "actuator_at s i = Inr a"
    and "i \<in> set (actuatorsWithAutoOffIndexes s)"
    and "\<forall>j\<in>set (actuatorsWithAutoOffIndexes s). \<exists>b. actuator_at s j = Inr b"
    and "0 < autoOffTimer_ms a"
    and "hasAutoOffTimer a = (autoOffTimer_ms a \<noteq> 0)"
    and "actualState a"
    and "autoOffTimer_ms a \<le> timeKeeper_now s - lastTimeSwitched a"
    and "ucast (ACTUATOR_DEBOUNCE_TIME_MS cfg) \<le> timeKeeper_now s - lastTimeSwitched a"
  shows "\<exists>s1 a1. actuatorsAutoOffTimersCheck cfg s = Inr (True, s1)
           \<and> actuator_at s1 i = Inr a1 \<and> \<not> actualState a1"
proof -
  have h: "hasAutoOffTimer a" using assms(4,5) by (simp add: word_greater_zero_iff)
  have "(\<not> actualState a \<and> False)
          \<or> (i \<in> set (actuatorsWithAutoOffIndexes s) \<and> actualState a \<and> hasAutoOffTimer a
              \<and> autoOffTimer_ms a \<le> timeKeeper_now s - lastTimeSwitched a
              \<and> \<not> timeKeeper_now s - lastTimeSwitched a < ucast (ACTUATOR_DEBOUNCE_TIME_MS cfg))"
    using assms h by (simp add: not_less)
  from sweep_switches_off [OF assms(3,1) this] show ?thesis
    by (simp add: actuatorsAutoOffTimersCheck_def)
qed


theorem auto_off_sweep_witness:
  "\<exists>s1 a1. actuatorsAutoOffTimersCheck default_config long_timer_system = Inr (True, s1)
      \<and> actuator_at s1 0 = Inr a1 \<and> \<not> actualState a1"
proof -
  have 1: "actuator_at long_timer_system 0 = Inr long_timer_relay"
    and 2: "0 \<in> set (actuatorsWithAutoOffIndexes long_timer_system)"
    and 3: "\<forall>j\<in>set (actuatorsWithAutoOffIndexes long_timer_system).
              \<exists>b. actuator_at long_timer_system j = Inr b"
    by (simp_all add: long_timer_system_def example_system_def actuator_at_def)
  have 4: "0 < autoOffTimer_ms long_timer_relay"
    and 5: "hasAutoOffTimer long_timer_relay = (autoOffTimer_ms long_timer_relay \<noteq> 0)"
    and 6: "actualState long_timer_relay"
    and 7: "autoOffTimer_ms long_timer_relay
              \<le> timeKeeper_now long_timer_system - lastTimeSwitched long_timer_relay"
    and 8: "ucast (ACTUATOR_DEBOUNCE_TIME_MS default_config)
              \<le> timeKeeper_now long_timer_system - lastTimeSwitched long_timer_relay"
    by (simp_all add: long_timer_relay_def setAutoOffTimer_def new_Actuator_def
        long_timer_system_def example_system_def default_config_def)
  from auto_off_sweep [OF 1 2 3 4 5 6 7 8] show ?thesis .
qed

section \<open>Iteration over whole registry arrays\<close>

lemma each_slot_eq:
  "each_slot f slots = (if None \<in> set slots then Inl NullPointer else Inr (map (\<lambda>x. f (the x)) slots))"
  by (induction slots) (auto split: option.splits)

lemma autoOffIndexes_None:
  "None \<in> set slots \<Longrightarrow> autoOffIndexes slots i acc = Inl NullPointer"
  by (induction slots arbitrary: i acc) (auto split: option.splits)

lemma autoOffIndexes_Some:
  "None \<notin> set slots \<Longrightarrow> \<exists>idxs. autoOffIndexes slots i acc = Inr idxs"
proof (induction slots arbitrary: i acc)
  case Nil
  then show ?case by simp
next
  case (Cons a slots)
  then show ?case by (cases a) auto
qed

lemma registry_filled_None_iff:
  assumes "registry_filled capacity slots registered"
  shows "None \<in> set slots \<longleftrightarrow> registered \<noteq> capacity"
proof
  assume "None \<in> set slots"
  then obtain i where "i < length slots" "slots ! i = None" by (auto simp: in_set_conv_nth)
  with assms show "registered \<noteq> capacity" by (auto simp: registry_filled_def)
next
  assume ne: "registered \<noteq> capacity"
  from assms have len: "length slots = capacity" and le: "registered \<le> capacity"
    and all: "\<forall>i<capacity. (slots ! i \<noteq> None) = (i < registered)"
    by (simp_all add: registry_filled_def)
  from ne le have lt: "registered < capacity" by simp
  with all have "(slots ! registered \<noteq> None) = (registered < registered)" by blast
  then have "slots ! registered = None" by simp
  with lt len show "None \<in> set slots" by (metis nth_mem)
qed

text \<open>\<open>addActuator\<close> keeps the registry filled from the front, starting from the
  empty registry.\<close>

lemma unat_succ_below:
  fixes n cap :: u8
  assumes "n < cap"
  shows "unat (n + 1) = Suc (unat n)"
  using assms by unat_arith

lemma addActuator_registry_filled:
  assumes f: "registry_filled (unat (CONFIG_MAX_ACTUATORS cfg)) (actuators s) (unat (totalActuators s))"
    and add: "addActuator cfg a s = Inr s1"
  shows "registry_filled (unat (CONFIG_MAX_ACTUATORS cfg)) (actuators s1) (unat (totalActuators s1))"
proof -
  let ?n = "totalActuators s"
  from add have lt: "?n < CONFIG_MAX_ACTUATORS cfg"
    by (simp add: addActuator_def Let_def not_le split: if_splits)
  then have ltn: "unat ?n < unat (CONFIG_MAX_ACTUATORS cfg)" by (simp add: word_less_nat_alt)
  from add lt have s1: "actuators s1 = (actuators s)[unat ?n := Some (a\<lparr>a_index := ?n\<rparr>)]"
    "totalActuators s1 = ?n + 1"
    by (auto simp: addActuator_def Let_def split: if_splits sum.splits)
  have suc: "unat (?n + 1) = Suc (unat ?n)" by (rule unat_succ_below [OF lt])
  from f ltn show ?thesis
    unfolding s1 suc registry_filled_def
    by (auto simp: nth_list_update less_Suc_eq)
qed

lemma init_System_registry_filled:
  "registry_filled (unat (CONFIG_MAX_ACTUATORS cfg)) (actuators (init_System cfg))
     (unat (totalActuators (init_System cfg)))"
  by (simp add: init_System_def registry_filled_def)

text \<open>
  C10. \<open>serializeDetails\<close>, \<open>serializeActuatorsState\<close> and \<open>Actuators::finalizeSetup\<close>
  (at its call in \<open>setup()\<close>, when no auto-off index has been collected yet) run over
  every slot of the registry arrays and dereference each. On registries filled by
  \<open>addActuator\<close> and \<open>addClickable\<close>, they are defined exactly when the number of
  registered entities equals the capacity; otherwise a null slot is dereferenced. Where
  they are defined, the arrays \<open>s\<close>, \<open>a\<close> and \<open>b\<close> of the records sent have as many
  elements as the capacity.
\<close>

theorem registry_iteration_over_capacity:
  assumes "registry_filled (unat (CONFIG_MAX_ACTUATORS cfg)) (actuators s) (unat (totalActuators s))"
    and "registry_filled (unat (CONFIG_MAX_CLICKABLES cfg)) (clickables s) (unat (totalClickables s))"
  shows "(if totalActuators s = CONFIG_MAX_ACTUATORS cfg
          then \<exists>xs. serializeActuatorsState s
                      = Inr (sendJson [(KEY_PAYLOAD, JUInt ACTUATORS_STATE), (KEY_STATE, JArray xs)] s)
                 \<and> length xs = unat (CONFIG_MAX_ACTUATORS cfg)
          else serializeActuatorsState s = Inl NullPointer)
       \<and> (if totalActuators s = CONFIG_MAX_ACTUATORS cfg \<and> totalClickables s = CONFIG_MAX_CLICKABLES cfg
          then \<exists>xs ys. serializeDetails cfg s
                      = Inr (sendJson [(KEY_PAYLOAD, JUInt DEVICE_DETAILS),
                                       (KEY_NAME, JString (CONFIG_DEVICE_NAME cfg)),
                                       (KEY_ACTUATORS_ARRAY, JArray xs),
                                       (KEY_BUTTONS_ARRAY, JArray ys)] s)
                 \<and> length xs = unat (CONFIG_MAX_ACTUATORS cfg)
                 \<and> length ys = unat (CONFIG_MAX_CLICKABLES cfg)
          else serializeDetails cfg s = Inl NullPointer)
       \<and> (actuatorsWithAutoOffIndexes s = [] \<longrightarrow>
            (Actuators_finalizeSetup s = Inl NullPointer)
              = (totalActuators s \<noteq> CONFIG_MAX_ACTUATORS cfg))"
proof -
  have la: "length (actuators s) = unat (CONFIG_MAX_ACTUATORS cfg)"
    and lc: "length (clickables s) = unat (CONFIG_MAX_CLICKABLES cfg)"
    using assms by (simp_all add: registry_filled_def)
  have na: "None \<in> set (actuators s) \<longleftrightarrow> totalActuators s \<noteq> CONFIG_MAX_ACTUATORS cfg"
    using registry_filled_None_iff [OF assms(1)] by (simp add: word_unat_eq_iff)
  have nc: "None \<in> set (clickables s) \<longleftrightarrow> totalClickables s \<noteq> CONFIG_MAX_CLICKABLES cfg"
    using registry_filled_None_iff [OF assms(2)] by (simp add: word_unat_eq_iff)
  have 1: "if totalActuators s = CONFIG_MAX_ACTUATORS cfg
          then \<exists>xs. serializeActuatorsState s
                      = Inr (sendJson [(KEY_PAYLOAD, JUInt ACTUATORS_STATE), (KEY_STATE, JArray xs)] s)
                 \<and> length xs = unat (CONFIG_MAX_ACTUATORS cfg)
          else serializeActuatorsState s = Inl NullPointer"
  proof (cases "totalActuators s = CONFIG_MAX_ACTUATORS cfg")
    case True
    with na have "serializeActuatorsState s
        = Inr (sendJson [(KEY_PAYLOAD, JUInt ACTUATORS_STATE),
                         (KEY_STATE, JArray (map (\<lambda>x. if actualState (the x) then 1 else 0) (actuators s)))] s)"
      by (simp add: serializeActuatorsState_def each_slot_eq)
    with la have "\<exists>xs. serializeActuatorsState s
                      = Inr (sendJson [(KEY_PAYLOAD, JUInt ACTUATORS_STATE), (KEY_STATE, JArray xs)] s)
                 \<and> length xs = unat (CONFIG_MAX_ACTUATORS cfg)"
      by (intro exI [of _ "map (\<lambda>x. if actualState (the x) then 1 else 0) (actuators s)"]) simp
    with True show ?thesis by simp
  next
    case False
    with na show ?thesis by (simp add: serializeActuatorsState_def each_slot_eq)
  qed
  have 2: "if totalActuators s = CONFIG_MAX_ACTUATORS cfg \<and> totalClickables s = CONFIG_MAX_CLICKABLES cfg
          then \<exists>xs ys. serializeDetails cfg s
                      = Inr (sendJson [(KEY_PAYLOAD, JUInt DEVICE_DETAILS),
                                       (KEY_NAME, JString (CONFIG_DEVICE_NAME cfg)),
                                       (KEY_ACTUATORS_ARRAY, JArray xs),
                                       (KEY_BUTTONS_ARRAY, JArray ys)] s)
                 \<and> length xs = unat (CONFIG_MAX_ACTUATORS cfg)
                 \<and> length ys = unat (CONFIG_MAX_CLICKABLES cfg)
          else serializeDetails cfg s = Inl NullPointer"
  proof (cases "totalActuators s = CONFIG_MAX_ACTUATORS cfg \<and> totalClickables s = CONFIG_MAX_CLICKABLES cfg")
    case True
    with na nc have "serializeDetails cfg s
        = Inr (sendJson [(KEY_PAYLOAD, JUInt DEVICE_DETAILS),
                         (KEY_NAME, JString (CONFIG_DEVICE_NAME cfg)),
                         (KEY_ACTUATORS_ARRAY, JArray (map (\<lambda>x. a_id (the x)) (actuators s))),
                         (KEY_BUTTONS_ARRAY, JArray (map (\<lambda>x. c_id (the x)) (clickables s)))] s)"
      by (simp add: serializeDetails_def each_slot_eq)
    with la lc have "\<exists>xs ys. serializeDetails cfg s
                      = Inr (sendJson [(KEY_PAYLOAD, JUInt DEVICE_DETAILS),
                                       (KEY_NAME, JString (CONFIG_DEVICE_NAME cfg)),
                                       (KEY_ACTUATORS_ARRAY, JArray xs),
                                       (KEY_BUTTONS_ARRAY, JArray ys)] s)
                 \<and> length xs = unat (CONFIG_MAX_ACTUATORS cfg)
                 \<and> length ys = unat (CONFIG_MAX_CLICKABLES cfg)"
      by (intro exI [of _ "map (\<lambda>x. a_id (the x)) (actuators s)"]
          exI [of _ "map (\<lambda>x. c_id (the x)) (clickables s)"]) simp
    with True show ?thesis by simp
  next
    case False
    with na nc show ?thesis by (auto simp: serializeDetails_def each_slot_eq)
  qed
  have 3: "(Actuators_finalizeSetup s = Inl NullPointer)
              = (totalActuators s \<noteq> CONFIG_MAX_ACTUATORS cfg)"
    if e: "actuatorsWithAutoOffIndexes s = []"
  proof (cases "None \<in> set (actuators s)")
    case True
    then show ?thesis
      using na e by (simp add: Actuators_finalizeSetup_def autoOffIndexes_None)
  next
    case False
    then obtain idxs where "autoOffIndexes (actuators s) 0 [] = Inr idxs"
      using autoOffIndexes_Some by blast
    then show ?thesis
      using na e False by (simp add: Actuators_finalizeSetup_def)
  qed
  from 1 2 3 show ?thesis by blast
qed


theorem registry_iteration_over_capacity_witness:
  "(\<exists>xs. serializeActuatorsState example_system
            = Inr (sendJson [(KEY_PAYLOAD, JUInt ACTUATORS_STATE), (KEY_STATE, JArray xs)] example_system)
       \<and> length xs = 2)
   \<and> serializeActuatorsState spare_system = Inl NullPointer
   \<and> serializeDetails default_config spare_system = Inl NullPointer
   \<and> Actuators_finalizeSetup spare_system = Inl NullPointer"
proof -
  have lt2: "i < 2 \<longleftrightarrow> i = 0 \<or> i = Suc 0" for i :: nat by auto
  have f1: "registry_filled (unat (CONFIG_MAX_ACTUATORS default_config)) (actuators example_system)
              (unat (totalActuators example_system))"
    and f2: "registry_filled (unat (CONFIG_MAX_CLICKABLES default_config)) (clickables example_system)
              (unat (totalClickables example_system))"
    and g1: "registry_filled (unat (CONFIG_MAX_ACTUATORS default_config)) (actuators spare_system)
              (unat (totalActuators spare_system))"
    and g2: "registry_filled (unat (CONFIG_MAX_CLICKABLES default_config)) (clickables spare_system)
              (unat (totalClickables spare_system))"
    by (auto simp: registry_filled_def default_config_def example_system_def spare_system_def lt2)
  have e: "totalActuators example_system = CONFIG_MAX_ACTUATORS default_config"
    and n: "totalActuators spare_system \<noteq> CONFIG_MAX_ACTUATORS default_config"
    and a: "actuatorsWithAutoOffIndexes spare_system = []"
    and c: "unat (CONFIG_MAX_ACTUATORS default_config) = 2"
    by (simp_all add: default_config_def example_system_def spare_system_def)
  from registry_iteration_over_capacity [OF f1 f2] e c
  have 1: "\<exists>xs. serializeActuatorsState example_system
            = Inr (sendJson [(KEY_PAYLOAD, JUInt ACTUATORS_STATE), (KEY_STATE, JArray xs)] example_system)
       \<and> length xs = 2"
    by simp
  from registry_iteration_over_capacity [OF g1 g2] n a
  have 2: "serializeActuatorsState spare_system = Inl NullPointer
   \<and> serializeDetails default_config spare_system = Inl NullPointer
   \<and> Actuators_finalizeSetup spare_system = Inl NullPointer"
    by simp
  from 1 2 show ?thesis by blast
qed

end
